theory Spec2Isabelle
  imports Complex_Main
begin

section \<open>CubeScene: the animated hex-grid scene of src/components/CubeScene.tsx\<close>

text \<open>
  The component builds a scene once (a hexagonal grid of shapes sharing one geometry and one
  material, a pool of seven arcs, lights, stars, an asynchronously loaded text label) and then
  advances it from a frame callback. JavaScript numbers are modelled as exact reals, the
  closure variables of the effect (\<open>shapes\<close>, \<open>arcs\<close>, \<open>shimmerAnimations\<close>, \<open>textMesh\<close>,
  \<open>animationFrameId\<close>) as fields of one state record, and \<open>Math.random()\<close> as a supply of
  draws from the half-open unit interval that the code consumes in order.

  The rounding of binary64 arithmetic is not modelled. Every sum, product, floor and
  comparison below is the one of the reals; the code computes the same value up to rounding,
  so where a rounded result crosses an integer or a bound that the exact one does not reach,
  the code takes the other branch. The statements about counts of points, about the update
  in which a progress reaches 1 and about numbers of passes are statements about the exact
  arithmetic.
\<close>

subsection \<open>Vectors and colours\<close>

record vec3 =
  vx :: real
  vy :: real
  vz :: real

record color =
  cr :: real
  cg :: real
  cb :: real

text \<open>The \<open>THREE.Vector3\<close> operations that \<open>createArc\<close> calls.\<close>

definition addVectors :: "vec3 \<Rightarrow> vec3 \<Rightarrow> vec3" where
  "addVectors a b = \<lparr>vx = vx a + vx b, vy = vy a + vy b, vz = vz a + vz b\<rparr>"

definition multiplyScalar :: "vec3 \<Rightarrow> real \<Rightarrow> vec3" where
  "multiplyScalar a s = \<lparr>vx = vx a * s, vy = vy a * s, vz = vz a * s\<rparr>"

definition distanceTo :: "vec3 \<Rightarrow> vec3 \<Rightarrow> real" where
  "distanceTo a b =
     sqrt ((vx a - vx b) * (vx a - vx b) + (vy a - vy b) * (vy a - vy b)
           + (vz a - vz b) * (vz a - vz b))"

subsection \<open>The hexagonal grid (lines 39 to 62)\<close>

definition radius :: real where
  "radius = 2.5"

definition gridSize :: int where
  "gridSize = 5"

text \<open>
  The two nested \<open>for\<close> loops: \<open>q\<close> runs over \<open>[-g, g]\<close> and, for each \<open>q\<close>, \<open>r\<close> runs
  over \<open>[max(-g, -q-g), min(g, -q+g)]\<close>, in this order.
\<close>

definition hexRow :: "int \<Rightarrow> int \<Rightarrow> (int \<times> int) list" where
  "hexRow g q = map (\<lambda>r. (q, r)) [max (- g) (- q - g) .. min g (- q + g)]"

definition hexCoords :: "int \<Rightarrow> (int \<times> int) list" where
  "hexCoords g = concat (map (hexRow g) [- g .. g])"

text \<open>The axial-to-cartesian conversion of the loop body; every shape lies in the plane \<open>y = 0\<close>.\<close>

definition hexPosition :: "real \<Rightarrow> int \<times> int \<Rightarrow> vec3" where
  "hexPosition rad qr =
     (case qr of (q, r) \<Rightarrow>
        \<lparr>vx = rad * (sqrt 3 * real_of_int q + sqrt 3 / 2 * real_of_int r),
         vy = 0,
         vz = rad * (3 / 2 * real_of_int r)\<rparr>)"

text \<open>A \<open>THREE.Mesh\<close> of the grid: what the code reads and writes of it.\<close>

record mesh =
  position :: vec3
  rotation_x :: real
  rotation_y :: real

definition newMesh :: "vec3 \<Rightarrow> mesh" where
  "newMesh p = \<lparr>position = p, rotation_x = 0, rotation_y = 0\<rparr>"

definition hexShapes :: "real \<Rightarrow> int \<Rightarrow> mesh list" where
  "hexShapes rad g = map (\<lambda>qr. newMesh (hexPosition rad qr)) (hexCoords g)"


subsection \<open>Random draws\<close>

text \<open>\<open>Math.random()\<close> returns a number in \<open>[0, 1)\<close>; a draw is such a number.\<close>

typedef rnd = "{r::real. 0 \<le> r \<and> r < 1}"
  morphisms value_of Abs_rnd
  by (rule exI [of _ 0]) simp

setup_lifting type_definition_rnd

lift_definition rnd_of :: "real \<Rightarrow> rnd" is "\<lambda>x. if 0 \<le> x \<and> x < 1 then x else 0"
  by simp

text \<open>\<open>Math.floor(Math.random() * n)\<close>\<close>

definition randomIndex :: "rnd \<Rightarrow> nat \<Rightarrow> nat" where
  "randomIndex r n = nat \<lfloor>value_of r * real n\<rfloor>"

subsection \<open>Errors and outcomes\<close>

text \<open>
  A call either returns, or throws, or is still waiting for a draw when the supply ends
  (the \<open>do ... while\<close> loop of \<open>createArc\<close> consumes draws without bound).
\<close>

datatype error = TypeError | GeometryError | NotFoundError

datatype 'a outcome = Done 'a | Thrown error | Starved

definition obind :: "'a outcome \<Rightarrow> ('a \<Rightarrow> 'b outcome) \<Rightarrow> 'b outcome" where
  "obind m f = (case m of Done x \<Rightarrow> f x | Thrown e \<Rightarrow> Thrown e | Starved \<Rightarrow> Starved)"

definition nextDraw :: "rnd list \<Rightarrow> (rnd \<times> rnd list) outcome" where
  "nextDraw rs = (case rs of [] \<Rightarrow> Starved | r # rs' \<Rightarrow> Done (r, rs'))"

subsection \<open>Scene objects\<close>

text \<open>The one \<open>MeshStandardMaterial\<close> that every shape of the grid is built with (line 50).\<close>

record standardMaterial =
  mat_color :: color
  metalness :: real
  roughness :: real
  emissive :: color

text \<open>A \<open>THREE.Line\<close>: its identity, the points of its geometry, the opacity of its material.\<close>

record three_line =
  line_id :: nat
  geometry :: "vec3 list"
  opacity :: real

record shimmerAnimation =
  shape :: nat
  anim_progress :: real
  originalColor :: color
  originalMetalness :: real
  originalEmissive :: color

record arc =
  line :: three_line
  progress :: real
  speed :: real
  start :: vec3
  arc_end :: vec3
  control :: vec3
  active :: bool
  targetShape :: "nat option"

datatype node =
  ShapeNode nat | LineNode nat | PointLightNode nat | AmbientLightNode nat
  | StarsNode | CameraGroupNode

datatype resource =
  LineGeometry nat | LineMaterial nat | ShapeGeometry | ShapeMaterial
  | TextGeometry | TextMaterial | StarsGeometry | StarsMaterial | Renderer

datatype element = Canvas

record state =
  shapes :: "mesh list"
  material :: standardMaterial
  arcs :: "arc list"
  shimmerAnimations :: "shimmerAnimation list"
  scene :: "node list"
  released :: "resource list"
  next_id :: nat
  camera_position :: vec3
  camera_aspect :: real
  projection_aspect :: real
  camera_text :: bool
  renderer_size :: "real \<times> real"
  textMesh :: "vec3 option"
  animationFrameId :: "nat option"
  pending_frames :: "nat list"
  next_frame :: nat
  mountRef_current :: "element list option"
  resize_listener :: bool
  rendered :: nat

subsection \<open>Curve sampling (three.js)\<close>

text \<open>
  Modelled from the spec: the curve-sampling utility of the rendering library (three.js,
  which is not among the sources), producing evenly spaced points along a quadratic Bezier
  curve. \<open>QuadraticBezierCurve3.getPoint(t)\<close> interpolates each coordinate with the quadratic
  Bernstein polynomials, and \<open>Curve.getPoints(divisions)\<close> evaluates it at \<open>d / divisions\<close>
  for \<open>d = 0, ..., divisions\<close>: it returns \<open>divisions + 1\<close> points, the 51 points of
  \<open>getPoints(50)\<close> in \<open>createArc\<close> and 6 points for \<open>getPoints(5)\<close> in the frame callback.
\<close>

definition QuadraticBezier :: "real \<Rightarrow> real \<Rightarrow> real \<Rightarrow> real \<Rightarrow> real" where
  "QuadraticBezier t p0 p1 p2 =
     (1 - t) * (1 - t) * p0 + 2 * (1 - t) * t * p1 + t * t * p2"

definition getPoint :: "vec3 \<Rightarrow> vec3 \<Rightarrow> vec3 \<Rightarrow> real \<Rightarrow> vec3" where
  "getPoint v0 v1 v2 t =
     \<lparr>vx = QuadraticBezier t (vx v0) (vx v1) (vx v2),
      vy = QuadraticBezier t (vy v0) (vy v1) (vy v2),
      vz = QuadraticBezier t (vz v0) (vz v1) (vz v2)\<rparr>"

definition getPoints :: "vec3 \<Rightarrow> vec3 \<Rightarrow> vec3 \<Rightarrow> nat \<Rightarrow> vec3 list" where
  "getPoints v0 v1 v2 divisions =
     map (\<lambda>d. getPoint v0 v1 v2 (real d / real divisions)) [0 ..< divisions + 1]"

subsection \<open>The arc pool (lines 76 to 135)\<close>

definition maxArcs :: nat where
  "maxArcs = 7"

text \<open>\<open>scene.remove(obj)\<close> takes the object out of the children when it is one of them.\<close>

definition sceneRemove :: "node \<Rightarrow> node list \<Rightarrow> node list" where
  "sceneRemove n ns = remove1 n ns"

definition disposeArc :: "arc \<Rightarrow> state \<Rightarrow> state" where
  "disposeArc a st =
     st\<lparr>released := released st @ [LineGeometry (line_id (line a)), LineMaterial (line_id (line a))],
        scene := sceneRemove (LineNode (line_id (line a))) (scene st)\<rparr>"

text \<open>
  The \<open>do ... while (endShape === startShape)\<close> loop: \<open>n\<close> is \<open>shapes.length\<close> and \<open>s\<close> the
  index of the start shape. Two reads of \<open>shapes\<close> give the same object exactly when the
  indices agree.
\<close>

fun pickEnd :: "nat \<Rightarrow> nat \<Rightarrow> rnd list \<Rightarrow> (nat \<times> rnd list) outcome" where
  "pickEnd n s [] = Starved"
| "pickEnd n s (r # rs) =
     (let e = randomIndex r n in if e = s then pickEnd n s rs else Done (e, rs))"

text \<open>\<open>shapes[i].position\<close>: reading \<open>position\<close> of \<open>undefined\<close> throws.\<close>

definition positionAt :: "mesh list \<Rightarrow> nat \<Rightarrow> vec3 outcome" where
  "positionAt ms i = (if i < length ms then Done (position (ms ! i)) else Thrown TypeError)"

definition controlPoint :: "vec3 \<Rightarrow> vec3 \<Rightarrow> vec3" where
  "controlPoint s e =
     (let mid = multiplyScalar (addVectors s e) 0.5;
          height = distanceTo s e * 0.5
      in addVectors mid \<lparr>vx = 0, vy = height, vz = 0\<rparr>)"

definition newArc :: "nat \<Rightarrow> vec3 \<Rightarrow> vec3 \<Rightarrow> nat \<Rightarrow> rnd \<Rightarrow> arc" where
  "newArc i s e target r =
     (let c = controlPoint s e;
          points = getPoints s c e 50
      in \<lparr>line = \<lparr>line_id = i, geometry = points, opacity = 0.5\<rparr>,
          progress = 0,
          speed = 0.02 + value_of r * 0.03,
          start = s, arc_end = e, control = c,
          active = True,
          targetShape = Some target\<rparr>)"

definition createArc :: "state \<Rightarrow> rnd list \<Rightarrow> (arc \<times> state \<times> rnd list) outcome" where
  "createArc st rs =
     obind (nextDraw rs) (\<lambda>(r0, rs1).
       let s = randomIndex r0 (length (shapes st)) in
       obind (pickEnd (length (shapes st)) s rs1) (\<lambda>(e, rs2).
         obind (positionAt (shapes st) s) (\<lambda>ps.
           obind (positionAt (shapes st) e) (\<lambda>pe.
             obind (nextDraw rs2) (\<lambda>(r1, rs3).
               Done (newArc (next_id st) ps pe e r1,
                     st\<lparr>scene := scene st @ [LineNode (next_id st)],
                        next_id := next_id st + 1\<rparr>,
                     rs3))))))"

subsection \<open>Shimmer animations (lines 137 to 157)\<close>

text \<open>\<open>shape.material\<close> is the shared material for every shape, so the snapshot is of it.\<close>

definition startShimmerEffect :: "nat \<Rightarrow> state \<Rightarrow> state" where
  "startShimmerEffect sh st =
     st\<lparr>shimmerAnimations := shimmerAnimations st @
          [\<lparr>shape = sh, anim_progress = 0,
            originalColor = mat_color (material st),
            originalMetalness = metalness (material st),
            originalEmissive = emissive (material st)\<rparr>]\<rparr>"


text \<open>
  The body of the update loop (lines 313 to 340) for one record; the loop runs from the last
  index down to \<open>0\<close>, and \<open>splice(i, 1)\<close> takes the finished record out.
\<close>

definition shimmerIntensity :: "real \<Rightarrow> real" where
  "shimmerIntensity p = sin (p * pi * 2) * 0.5 + 0.5"

definition shimmerMaterial :: "shimmerAnimation \<Rightarrow> standardMaterial \<Rightarrow> standardMaterial" where
  "shimmerMaterial anim m =
     (let si = shimmerIntensity (anim_progress anim)
      in m\<lparr>emissive := \<lparr>cr = 1.0 * si, cg = 0.5 * si, cb = 0.2 * si\<rparr>,
           metalness := originalMetalness anim + 0.1 * si,
           mat_color := \<lparr>cr = 1.0, cg = 0.8 * (1.0 - si) + 0.5, cb = 0.8 * (1.0 - si) + 0.2\<rparr>\<rparr>)"

definition restoreMaterial :: "shimmerAnimation \<Rightarrow> standardMaterial \<Rightarrow> standardMaterial" where
  "restoreMaterial anim m =
     m\<lparr>emissive := originalEmissive anim,
       metalness := originalMetalness anim,
       mat_color := originalColor anim\<rparr>"

fun shimmerLoop ::
  "nat \<Rightarrow> shimmerAnimation list \<Rightarrow> standardMaterial \<Rightarrow> shimmerAnimation list \<times> standardMaterial"
where
  "shimmerLoop 0 as m = (as, m)"
| "shimmerLoop (Suc i) as m =
     (let anim = (as ! i)\<lparr>anim_progress := anim_progress (as ! i) + 0.05\<rparr>;
          as1 = as[i := anim];
          m1 = shimmerMaterial anim m
      in if anim_progress anim \<ge> 1
         then shimmerLoop i (take i as1 @ drop (Suc i) as1) (restoreMaterial anim m1)
         else shimmerLoop i as1 m1)"

definition updateShimmers :: "state \<Rightarrow> state" where
  "updateShimmers st =
     (case shimmerLoop (length (shimmerAnimations st)) (shimmerAnimations st) (material st) of
        (as, m) \<Rightarrow> st\<lparr>shimmerAnimations := as, material := m\<rparr>)"

subsection \<open>The frame callback (lines 240 to 346)\<close>

text \<open>
  The \<open>try\<close> block of the arc update. Whatever can fail inside it is given by the predicate
  \<open>fails\<close> on the arc being recomputed; every element of \<open>points\<close> is a vector, so the
  test \<open>p && p.x !== undefined\<close> holds of each and the guard is the length test.

  The product \<open>points.length * arc.progress\<close> is the exact one here. In binary64 it is
  rounded before \<open>Math.floor\<close>: at the stored progress \<open>0.6666666666666666\<close> the product
  \<open>6 * progress\<close> rounds to \<open>4.0\<close> and the code keeps 4 points, where the exact product
  is below 4 and this definition keeps 3. The two agree wherever the rounded product is not
  an integer that the exact product stays below.
\<close>

definition recomputeVisible :: "(arc \<Rightarrow> bool) \<Rightarrow> arc \<Rightarrow> arc outcome" where
  "recomputeVisible fails a =
     (if fails a then Thrown GeometryError
      else
        let points = getPoints (start a) (control a) (arc_end a) 5;
            numPoints = max 2 \<lfloor>real (length points) * progress a\<rfloor>;
            visiblePoints = take (nat numPoints) points
        in if length visiblePoints \<ge> 2
           then Done (a\<lparr>line := (line a)\<lparr>geometry := visiblePoints,
                                         opacity := min 1 (2 * (1 - progress a)) * 0.5\<rparr>\<rparr>)
           else Done a)"

text \<open>\<open>disposeArc(arc); arcs[index] = createArc();\<close>\<close>

definition replaceArc :: "nat \<Rightarrow> arc \<Rightarrow> state \<Rightarrow> rnd list \<Rightarrow> (state \<times> rnd list) outcome" where
  "replaceArc index a st rs =
     obind (createArc (disposeArc a st) rs) (\<lambda>(a', st', rs').
       Done (st'\<lparr>arcs := (arcs st')[index := a']\<rparr>, rs'))"

text \<open>
  The callback of \<open>forEach\<close> at line 273; \<open>arcs[index].active\<close> throws on \<open>undefined\<close>.
  The sum \<open>arc.progress + arc.speed\<close> is the exact one: the stored binary64 progress
  differs from it by the accumulated rounding, so the update at which the test
  \<open>arc.progress >= 1\<close> first holds can be the one before or after the update at which the
  exact sum reaches 1.
\<close>

definition updateArc ::
  "(arc \<Rightarrow> bool) \<Rightarrow> nat \<Rightarrow> state \<Rightarrow> rnd list \<Rightarrow> (state \<times> rnd list) outcome"
where
  "updateArc fails index st rs =
     (if index < length (arcs st) then
        let arc0 = arcs st ! index in
        if active arc0 then
          let a = arc0\<lparr>progress := progress arc0 + speed arc0\<rparr>;
              st1 = st\<lparr>arcs := (arcs st)[index := a]\<rparr>
          in if progress a \<ge> 1 then
               let st2 = (case targetShape a of
                            Some t \<Rightarrow> startShimmerEffect t st1
                          | None \<Rightarrow> st1)
               in replaceArc index a st2 rs
             else
               (case recomputeVisible fails a of
                  Done a' \<Rightarrow> Done (st1\<lparr>arcs := (arcs st1)[index := a']\<rparr>, rs)
                | Thrown x \<Rightarrow> replaceArc index a st1 rs
                | Starved \<Rightarrow> Starved)
        else Done (st, rs)
      else Thrown TypeError)"

fun updateArcs ::
  "(arc \<Rightarrow> bool) \<Rightarrow> nat list \<Rightarrow> state \<Rightarrow> rnd list \<Rightarrow> (state \<times> rnd list) outcome"
where
  "updateArcs fails [] st rs = Done (st, rs)"
| "updateArcs fails (i # is) st rs =
     obind (updateArc fails i st rs) (\<lambda>(st', rs'). updateArcs fails is st' rs')"

text \<open>The shuffle of lines 267 to 270: \<open>i\<close> runs from \<open>length - 1\<close> down to \<open>1\<close>.\<close>

fun shuffle :: "nat \<Rightarrow> nat list \<Rightarrow> rnd list \<Rightarrow> (nat list \<times> rnd list) outcome" where
  "shuffle 0 xs rs = Done (xs, rs)"
| "shuffle (Suc k) xs [] = Starved"
| "shuffle (Suc k) xs (r # rs) =
     (let i = Suc k;
          j = randomIndex r (i + 1)
      in shuffle k (xs[i := xs ! j, j := xs ! i]) rs)"

definition camera_velocity :: real where
  "camera_velocity = 0.04"

definition requestAnimationFrame :: "state \<Rightarrow> state" where
  "requestAnimationFrame st =
     st\<lparr>animationFrameId := Some (next_frame st),
        pending_frames := pending_frames st @ [next_frame st],
        next_frame := next_frame st + 1\<rparr>"

definition rotateShapes :: "mesh list \<Rightarrow> mesh list" where
  "rotateShapes ms =
     map (\<lambda>s. s\<lparr>rotation_x := rotation_x s + 0.003, rotation_y := rotation_y s + 0.005\<rparr>) ms"

definition render :: "state \<Rightarrow> state" where
  "render st = st\<lparr>rendered := rendered st + 1\<rparr>"

text \<open>
  \<open>now\<close> is \<open>Date.now()\<close>. The orientation of the camera (\<open>lookAt\<close>) and the input read by
  \<open>controls.update()\<close> are not part of the state.
\<close>

definition animate ::
  "(arc \<Rightarrow> bool) \<Rightarrow> real \<Rightarrow> state \<Rightarrow> rnd list \<Rightarrow> (state \<times> rnd list) outcome"
where
  "animate fails now st rs =
     (let st1 = requestAnimationFrame st;
          time = now * 0.001;
          st2 = st1\<lparr>camera_position :=
                      \<lparr>vx = cos (time * camera_velocity) * 8,
                       vy = sin (time * camera_velocity) * 3,
                       vz = sin (time * camera_velocity) * 8\<rparr>\<rparr>;
          st3 = st2\<lparr>shapes := rotateShapes (shapes st2)\<rparr>;
          updatePercentage = 0.3;
          numArcsToUpdate = max 1 (nat \<lfloor>real (length (arcs st3)) * updatePercentage\<rfloor>);
          arcIndices = [0 ..< length (arcs st3)]
      in obind (shuffle (length arcIndices - 1) arcIndices rs) (\<lambda>(shuffled, rs1).
           obind (updateArcs fails (take numArcsToUpdate shuffled) st3 rs1) (\<lambda>(st4, rs2).
             Done (render (updateShimmers st4), rs2))))"


subsection \<open>Resize and font load (lines 168 to 191 and 348 to 355)\<close>

text \<open>\<open>w\<close> and \<open>h\<close> are \<open>window.innerWidth\<close> and \<open>window.innerHeight\<close> when the handler runs;
  \<open>updateProjectionMatrix\<close> recomputes the projection from the aspect just stored.\<close>

definition handleResize :: "real \<Rightarrow> real \<Rightarrow> state \<Rightarrow> state" where
  "handleResize w h st =
     (let st1 = st\<lparr>camera_aspect := w / h\<rparr>;
          st2 = st1\<lparr>projection_aspect := camera_aspect st1\<rparr>
      in st2\<lparr>renderer_size := (w, h)\<rparr>)"

text \<open>The callback of \<open>fontLoader.load\<close>; \<open>textWidth\<close> is the width of the bounding box.\<close>

definition fontLoaded :: "real \<Rightarrow> state \<Rightarrow> state" where
  "fontLoaded textWidth st =
     st\<lparr>textMesh := Some \<lparr>vx = - textWidth / 2 + 4, vy = - 3.5, vz = - 10\<rparr>,
        camera_text := True\<rparr>"

subsection \<open>Mounting (lines 10 to 355)\<close>

text \<open>
  Modelled from the spec: the rendering library (three.js) is not among the sources and the
  spec treats it as an external collaborator. This is its colour constructor, behind the
  material's \<open>color: 0x888888\<close> and \<open>emissive: new THREE.Color(0x000000)\<close>:
  \<open>Color.setHex\<close> splits the number into its three bytes, scales each to \<open>[0, 1]\<close> and
  converts it from sRGB to the linear working colour space with \<open>SRGBToLinear\<close>, while
  \<open>setRGB\<close> and \<open>copy\<close>, which the shimmer uses, store their arguments as they are.
\<close>

definition SRGBToLinear :: "real \<Rightarrow> real" where
  "SRGBToLinear c =
     (if c < 0.04045 then c * 0.0773993808
      else (c * 0.9478672986 + 0.0521327014) powr 2.4)"

definition setHex :: "nat \<Rightarrow> color" where
  "setHex hex =
     \<lparr>cr = SRGBToLinear (real (hex div 65536 mod 256) / 255),
      cg = SRGBToLinear (real (hex div 256 mod 256) / 255),
      cb = SRGBToLinear (real (hex mod 256) / 255)\<rparr>"

text \<open>The material of lines 23 to 28; \<open>0x888888\<close> is \<open>8947848\<close>.\<close>

definition initialMaterial :: standardMaterial where
  "initialMaterial =
     \<lparr>mat_color = setHex 8947848,
      metalness = 0.9,
      roughness = 0.1,
      emissive = setHex 0\<rparr>"

text \<open>The state after the grid loop: \<open>cs\<close> are the children the container already has.\<close>

definition sceneSetup :: "element list \<Rightarrow> real \<Rightarrow> real \<Rightarrow> state" where
  "sceneSetup cs w h =
     \<lparr>shapes = hexShapes radius gridSize,
      material = initialMaterial,
      arcs = [],
      shimmerAnimations = [],
      scene = map ShapeNode [0 ..< length (hexShapes radius gridSize)],
      released = [],
      next_id = 0,
      camera_position = \<lparr>vx = 0, vy = 0, vz = 0\<rparr>,
      camera_aspect = w / h,
      projection_aspect = w / h,
      camera_text = False,
      renderer_size = (w, h),
      textMesh = None,
      animationFrameId = None,
      pending_frames = [],
      next_frame = 0,
      mountRef_current = Some (cs @ [Canvas]),
      resize_listener = False,
      rendered = 0\<rparr>"

text \<open>\<open>for (let i = 0; i < maxArcs; i++) arcs.push(createArc())\<close>, with \<open>n\<close> rounds to go.\<close>

fun initArcs :: "nat \<Rightarrow> state \<Rightarrow> rnd list \<Rightarrow> (state \<times> rnd list) outcome" where
  "initArcs 0 st rs = Done (st, rs)"
| "initArcs (Suc n) st rs =
     obind (createArc st rs) (\<lambda>(a, st', rs'). initArcs n (st'\<lparr>arcs := arcs st' @ [a]\<rparr>) rs')"

definition addLightsAndStars :: "state \<Rightarrow> state" where
  "addLightsAndStars st =
     st\<lparr>scene := scene st @
          [PointLightNode 1, PointLightNode 2, PointLightNode 3, AmbientLightNode 0,
           StarsNode, CameraGroupNode],
        camera_position := \<lparr>vx = 0, vy = 0, vz = 8\<rparr>\<rparr>"

text \<open>
  The effect: nothing is built when \<open>mountRef.current\<close> is null; otherwise the scene is
  built, \<open>animate()\<close> is called once and the resize handler is registered.
\<close>

definition mountEffect ::
  "(arc \<Rightarrow> bool) \<Rightarrow> element list option \<Rightarrow> real \<Rightarrow> real \<Rightarrow> real \<Rightarrow> rnd list
     \<Rightarrow> (state option \<times> rnd list) outcome"
where
  "mountEffect fails cur w h now rs =
     (case cur of
        None \<Rightarrow> Done (None, rs)
      | Some cs \<Rightarrow>
          obind (initArcs maxArcs (sceneSetup cs w h) rs) (\<lambda>(st, rs1).
            obind (animate fails now (addLightsAndStars st) rs1) (\<lambda>(st', rs2).
              Done (Some (st'\<lparr>resize_listener := True\<rparr>), rs2))))"

subsection \<open>Events after mounting\<close>

datatype event = Frame real | Resize real real | FontLoaded real

text \<open>
  The browser calls the frame callback for a pending request, which it takes off the list
  first; a resize event reaches the handler while it is registered.
\<close>

definition fire ::
  "(arc \<Rightarrow> bool) \<Rightarrow> event \<Rightarrow> state \<Rightarrow> rnd list \<Rightarrow> (state \<times> rnd list) outcome"
where
  "fire fails ev st rs =
     (case ev of
        Frame now \<Rightarrow>
          (case pending_frames st of
             [] \<Rightarrow> Done (st, rs)
           | f # fs \<Rightarrow> animate fails now (st\<lparr>pending_frames := fs\<rparr>) rs)
      | Resize w h \<Rightarrow> Done (if resize_listener st then handleResize w h st else st, rs)
      | FontLoaded textWidth \<Rightarrow> Done (fontLoaded textWidth st, rs))"

fun run ::
  "(arc \<Rightarrow> bool) \<Rightarrow> event list \<Rightarrow> state \<Rightarrow> rnd list \<Rightarrow> (state \<times> rnd list) outcome"
where
  "run fails [] st rs = Done (st, rs)"
| "run fails (ev # evs) st rs =
     obind (fire fails ev st rs) (\<lambda>(st', rs'). run fails evs st' rs')"

subsection \<open>Cleanup (lines 357 to 392)\<close>

text \<open>\<open>parent.removeChild(child)\<close> throws when the node is not a child of the parent.\<close>

definition removeChild :: "element \<Rightarrow> element list \<Rightarrow> element list outcome" where
  "removeChild e cs = (if e \<in> set cs then Done (remove1 e cs) else Thrown NotFoundError)"

definition cancelAnimationFrame :: "nat option \<Rightarrow> state \<Rightarrow> state" where
  "cancelAnimationFrame handle st =
     (case handle of
        None \<Rightarrow> st
      | Some f \<Rightarrow> st\<lparr>pending_frames := removeAll f (pending_frames st)\<rparr>)"

definition release :: "resource list \<Rightarrow> state \<Rightarrow> state" where
  "release xs st = st\<lparr>released := released st @ xs\<rparr>"

definition cleanup :: "state \<Rightarrow> state outcome" where
  "cleanup st =
     (let st1 = fold disposeArc (arcs st) st;
          st2 = fold (\<lambda>s. release [ShapeGeometry, ShapeMaterial]) (shapes st1) st1;
          st3 = (case textMesh st2 of
                   None \<Rightarrow> st2
                 | Some t \<Rightarrow> (release [TextGeometry, TextMaterial] st2)\<lparr>camera_text := False\<rparr>);
          st4 = release [StarsGeometry, StarsMaterial] st3;
          st5 = st4\<lparr>scene :=
                     sceneRemove (AmbientLightNode 1)
                       (sceneRemove (PointLightNode 3)
                         (sceneRemove (PointLightNode 2)
                           (sceneRemove (PointLightNode 1) (scene st4))))\<rparr>;
          st6 = release [Renderer] st5
      in obind (case mountRef_current st6 of
                  None \<Rightarrow> Done st6
                | Some cs \<Rightarrow>
                    obind (removeChild Canvas cs) (\<lambda>cs'. Done (st6\<lparr>mountRef_current := Some cs'\<rparr>)))
           (\<lambda>st7. Done ((cancelAnimationFrame (animationFrameId st7) st7)
                           \<lparr>resize_listener := False\<rparr>)))"


section \<open>Predicates of the statements\<close>

text \<open>A pair \<open>(q, r)\<close> is an axial coordinate of the hexagon of radius \<open>g\<close> when all three
  cube coordinates \<open>q\<close>, \<open>r\<close> and \<open>-q-r\<close> lie within \<open>g\<close> of the origin.\<close>

definition validAxial :: "int \<Rightarrow> int \<times> int \<Rightarrow> bool" where
  "validAxial g qr = (case qr of (q, r) \<Rightarrow> \<bar>q\<bar> \<le> g \<and> \<bar>r\<bar> \<le> g \<and> \<bar>q + r\<bar> \<le> g)"

text \<open>What holds of every arc of the pool: it is active, its speed is in \<open>[0.02, 0.05)\<close>
  and its progress in \<open>[0, 1)\<close>.\<close>

definition arcInvariant :: "arc \<Rightarrow> bool" where
  "arcInvariant a =
     (active a \<and> 0.02 \<le> speed a \<and> speed a < 0.05 \<and> 0 \<le> progress a \<and> progress a < 1)"

text \<open>An arc as \<open>createArc\<close> returns it: at progress 0, active, with a speed in
  \<open>[0.02, 0.05)\<close>, a target, the raised control point, the 51 samples of its curve and
  opacity 0.5.\<close>

definition freshArc :: "arc \<Rightarrow> bool" where
  "freshArc a =
     (progress a = 0 \<and> active a \<and> 0.02 \<le> speed a \<and> speed a < 0.05
      \<and> targetShape a \<noteq> None
      \<and> control a = controlPoint (start a) (arc_end a)
      \<and> geometry (line a) = getPoints (start a) (control a) (arc_end a) 50
      \<and> opacity (line a) = 0.5)"

text \<open>How one pool slot changes in one frame: not at all, or the arc advances by its speed and
  stays below 1 (only the geometry and opacity of its line change besides), or the arc
  crossed 1 or failed and a new arc is in the slot.\<close>

definition arcStep :: "(arc \<Rightarrow> bool) \<Rightarrow> arc \<Rightarrow> arc \<Rightarrow> bool" where
  "arcStep fails a a' =
     (a' = a
      \<or> (progress a' = progress a + speed a \<and> progress a' < 1
         \<and> speed a' = speed a \<and> active a' = active a
         \<and> start a' = start a \<and> arc_end a' = arc_end a \<and> control a' = control a
         \<and> targetShape a' = targetShape a
         \<and> line_id (line a') = line_id (line a))
      \<or> ((1 \<le> progress a + speed a \<or> fails (a\<lparr>progress := progress a + speed a\<rparr>))
         \<and> freshArc a'))"

text \<open>An arc whose next update neither completes nor fails.\<close>

definition quietArc :: "(arc \<Rightarrow> bool) \<Rightarrow> arc \<Rightarrow> bool" where
  "quietArc fails a =
     (active a \<longrightarrow> progress a + speed a < 1 \<and> \<not> fails (a\<lparr>progress := progress a + speed a\<rparr>))"

text \<open>The fields that the arc update never writes.\<close>

definition outsidePool :: "state \<Rightarrow> state \<Rightarrow> bool" where
  "outsidePool st st' =
     (shapes st' = shapes st \<and> material st' = material st
      \<and> camera_position st' = camera_position st \<and> camera_aspect st' = camera_aspect st
      \<and> projection_aspect st' = projection_aspect st \<and> camera_text st' = camera_text st
      \<and> renderer_size st' = renderer_size st \<and> textMesh st' = textMesh st
      \<and> animationFrameId st' = animationFrameId st \<and> pending_frames st' = pending_frames st
      \<and> next_frame st' = next_frame st \<and> mountRef_current st' = mountRef_current st
      \<and> resize_listener st' = resize_listener st \<and> rendered st' = rendered st)"

text \<open>The pool holds \<open>maxArcs\<close> arcs, each within its invariant.\<close>

definition poolInvariant :: "state \<Rightarrow> bool" where
  "poolInvariant st = (length (arcs st) = maxArcs \<and> (\<forall>a \<in> set (arcs st). arcInvariant a))"

text \<open>While mounted: exactly one frame request is pending and \<open>animationFrameId\<close> names it,
  the canvas is a child of the container, and the resize handler is registered.\<close>

definition hostInvariant :: "state \<Rightarrow> bool" where
  "hostInvariant st =
     ((case pending_frames st of
         [f] \<Rightarrow> animationFrameId st = Some f
       | _ \<Rightarrow> False)
      \<and> (case mountRef_current st of
           Some cs \<Rightarrow> Canvas \<in> set cs
         | None \<Rightarrow> False)
      \<and> resize_listener st)"

text \<open>A shimmer record after its progress grew by \<open>d\<close>, and the test of the loop that keeps
  a record in the list.\<close>

definition advance :: "real \<Rightarrow> shimmerAnimation \<Rightarrow> shimmerAnimation" where
  "advance d anim = anim\<lparr>anim_progress := anim_progress anim + d\<rparr>"

definition running :: "shimmerAnimation \<Rightarrow> bool" where
  "running anim = (anim_progress anim < 1)"

text \<open>A list of shimmer records after \<open>n\<close> update passes, and the number of frames among
  some events.\<close>

definition aged :: "nat \<Rightarrow> shimmerAnimation list \<Rightarrow> shimmerAnimation list" where
  "aged n as = (if n = 0 then as else filter running (map (advance (real n * 0.05)) as))"

definition frameCount :: "event list \<Rightarrow> nat" where
  "frameCount evs = length (filter (\<lambda>ev. case ev of Frame t \<Rightarrow> True | _ \<Rightarrow> False) evs)"

text \<open>When the arc update puts a new arc into a slot: the arc is active, and its progress
  reaches 1 with this update or its recomputation fails.\<close>

definition replaced :: "(arc \<Rightarrow> bool) \<Rightarrow> arc \<Rightarrow> bool" where
  "replaced fails a =
     (active a \<and> (1 \<le> progress a + speed a \<or> fails (a\<lparr>progress := progress a + speed a\<rparr>)))"

text \<open>What the update of a slot does to its arc \<open>a\<close>: an inactive arc stays; a replaced arc
  gives way to an arc as \<open>createArc\<close> returns it, whose line was created when the counter of
  lines was at \<open>n0\<close> or later; any other arc becomes what the recomputation returns for it at
  the incremented progress.\<close>

definition arcUpdated :: "(arc \<Rightarrow> bool) \<Rightarrow> nat \<Rightarrow> arc \<Rightarrow> arc \<Rightarrow> bool" where
  "arcUpdated fails n0 a a' =
     (if \<not> active a then a' = a
      else if replaced fails a then freshArc a' \<and> n0 \<le> line_id (line a')
      else recomputeVisible fails (a\<lparr>progress := progress a + speed a\<rparr>) = Done a')"

text \<open>Every line of the pool was created before the counter reached its present value.\<close>

definition lineInvariant :: "state \<Rightarrow> bool" where
  "lineInvariant st = (\<forall>a \<in> set (arcs st). line_id (line a) < next_id st)"

text \<open>The state with which the arc updates of a frame start (lines 244 to 260: the next
  frame is requested, the camera moved, the shapes rotated), and the number of arcs that a
  frame updates (lines 263 and 264).\<close>

definition beforeArcs :: "real \<Rightarrow> state \<Rightarrow> state" where
  "beforeArcs now st =
     (requestAnimationFrame st)
       \<lparr>camera_position := \<lparr>vx = cos (now * 0.001 * camera_velocity) * 8,
                             vy = sin (now * 0.001 * camera_velocity) * 3,
                             vz = sin (now * 0.001 * camera_velocity) * 8\<rparr>,
        shapes := rotateShapes (shapes (requestAnimationFrame st))\<rparr>"

definition numArcsToUpdate :: "state \<Rightarrow> nat" where
  "numArcsToUpdate st = max 1 (nat \<lfloor>real (length (arcs st)) * 0.3\<rfloor>)"

text \<open>The draws that the updates of the slots \<open>is\<close> consume when each \<open>createArc\<close> takes the
  draws \<open>rs3\<close>: one copy of \<open>rs3\<close> for every slot whose arc is replaced.\<close>

definition replacementDraws ::
  "(arc \<Rightarrow> bool) \<Rightarrow> state \<Rightarrow> nat list \<Rightarrow> rnd list \<Rightarrow> rnd list" where
  "replacementDraws fails st is rs3 =
     concat (map (\<lambda>j. if replaced fails (arcs st ! j) then rs3 else []) is)"

section \<open>Example inputs\<close>

text \<open>Two shapes at \<open>(0,0,0)\<close> and \<open>(4,0,0)\<close>, the scenario of the control point.\<close>

definition twoShapes :: state where
  "twoShapes =
     (sceneSetup [] 800 600)
       \<lparr>shapes := [newMesh \<lparr>vx = 0, vy = 0, vz = 0\<rparr>, newMesh \<lparr>vx = 4, vy = 0, vz = 0\<rparr>],
        scene := [ShapeNode 0, ShapeNode 1]\<rparr>"

text \<open>The two extreme failure predicates for the \<open>try\<close> block.\<close>

definition neverFails :: "arc \<Rightarrow> bool" where
  "neverFails a = False"

definition alwaysFails :: "arc \<Rightarrow> bool" where
  "alwaysFails a = True"

text \<open>Draws for one \<open>createArc\<close> on the 91 shapes (start index 0, end index 45), and a
  supply for mounting followed by one more frame.\<close>

definition arcDraws :: "rnd list" where
  "arcDraws = [rnd_of 0, rnd_of (1 / 2), rnd_of 0]"

definition mountDraws :: "rnd list" where
  "mountDraws = concat (replicate 7 arcDraws) @ replicate 12 (rnd_of 0)"

text \<open>An arc from \<open>(0,0,0)\<close> to \<open>(4,0,0)\<close> with speed \<open>1/40\<close> after nineteen updates, the
  pool that holds it, and the arc after its twentieth update.\<close>

definition halfwayArc :: arc where
  "halfwayArc =
     (newArc 0 \<lparr>vx = 0, vy = 0, vz = 0\<rparr> \<lparr>vx = 4, vy = 0, vz = 0\<rparr> 1 (rnd_of (1 / 6)))
       \<lparr>progress := 19 / 40\<rparr>"

definition halfwayState :: state where
  "halfwayState =
     twoShapes\<lparr>arcs := [halfwayArc], scene := scene twoShapes @ [LineNode 0], next_id := 1\<rparr>"

definition halfwayArcAfter :: arc where
  "halfwayArcAfter =
     halfwayArc
       \<lparr>progress := 1 / 2,
        line := (line halfwayArc)
          \<lparr>geometry := take 3 (getPoints (start halfwayArc) (control halfwayArc) (arc_end halfwayArc) 5),
           opacity := 1 / 2\<rparr>\<rparr>"

text \<open>A shimmer record one pass before its end, and a state that holds it.\<close>

definition almostDone :: shimmerAnimation where
  "almostDone =
     \<lparr>shape = 1, anim_progress = 19 / 20,
      originalColor = mat_color initialMaterial,
      originalMetalness = metalness initialMaterial,
      originalEmissive = emissive initialMaterial\<rparr>"

definition shimmering :: state where
  "shimmering =
     twoShapes\<lparr>shimmerAnimations := [almostDone],
               material := shimmerMaterial almostDone initialMaterial\<rparr>"

text \<open>
  Draws for a long run. \<open>fastDraws\<close> create an arc from shape 0 to shape 45 with the speed
  \<open>0.02 + 29/30 * 0.03 = 0.049\<close>; under \<open>shuffleDraws\<close> the shuffle of the seven slots returns
  \<open>[1, 2, 3, 4, 5, 6, 0]\<close>, so that the frame updates slots 1 and 2. \<open>longDraws\<close> mount the
  scene with seven such arcs (the first frame is part of mounting) and supply nineteen more
  frames, after which slots 1 and 2 stand at \<open>20 * 0.049 = 0.98\<close>, and then a frame in which
  both reach \<open>1.029\<close> and are replaced.
\<close>

definition fastDraws :: "rnd list" where
  "fastDraws = [rnd_of 0, rnd_of (1 / 2), rnd_of (29 / 30)]"

definition shuffleDraws :: "rnd list" where
  "shuffleDraws = replicate 6 (rnd_of 0)"

definition quietDraws :: "nat \<Rightarrow> rnd list" where
  "quietDraws n = concat (replicate n shuffleDraws)"

definition crossingDraws :: "rnd list" where
  "crossingDraws = shuffleDraws @ fastDraws @ fastDraws"

definition longDraws :: "rnd list" where
  "longDraws = concat (replicate 7 fastDraws) @ shuffleDraws @ quietDraws 19 @ crossingDraws"

section \<open>Basic facts\<close>

lemma value_of_rnd_of [simp]: "value_of (rnd_of x) = (if 0 \<le> x \<and> x < 1 then x else 0)"
  by (rule rnd_of.rep_eq)

lemma value_of_bounds: "0 \<le> value_of r" "value_of r < 1"
  using value_of [of r] by auto

lemma randomIndex_less: "0 < n \<Longrightarrow> randomIndex r n < n"
proof -
  assume n: "0 < n"
  have "value_of r * real n < real n"
    using value_of_bounds [of r] n by simp
  then have "\<lfloor>value_of r * real n\<rfloor> < int n"
    by (simp add: floor_less_iff)
  with n show ?thesis
    unfolding randomIndex_def by linarith
qed

lemma randomIndex_zero [simp]: "randomIndex r 0 = 0"
  by (simp add: randomIndex_def)

lemma obind_Done [simp]: "obind (Done x) f = f x"
  and obind_Thrown [simp]: "obind (Thrown e) f = Thrown e"
  and obind_Starved [simp]: "obind Starved f = Starved"
  by (simp_all add: obind_def)

lemma hostInvariant_iff:
  "hostInvariant st \<longleftrightarrow>
     (\<exists>f. pending_frames st = [f] \<and> animationFrameId st = Some f)
     \<and> (\<exists>cs. mountRef_current st = Some cs \<and> Canvas \<in> set cs)
     \<and> resize_listener st"
  by (auto simp: hostInvariant_def split: list.splits option.splits)

lemma obind_eq_Done: "obind m f = Done y \<longleftrightarrow> (\<exists>x. m = Done x \<and> f x = Done y)"
  by (cases m) simp_all

section \<open>The colour of the material\<close>

lemma SRGBToLinear_0 [simp]: "SRGBToLinear 0 = 0"
  by (simp add: SRGBToLinear_def)

lemma setHex_0: "setHex 0 = \<lparr>cr = 0, cg = 0, cb = 0\<rparr>"
  by (simp add: setHex_def)

lemma setHex_888888:
  "setHex 8947848 =
     \<lparr>cr = SRGBToLinear (136 / 255), cg = SRGBToLinear (136 / 255), cb = SRGBToLinear (136 / 255)\<rparr>"
  by (simp add: setHex_def)

lemma powr_12_5_bounds:
  fixes x a b :: real
  assumes "0 < x" and "0 \<le> a" and "0 \<le> b" and "a ^ 5 < x ^ 12" and "x ^ 12 < b ^ 5"
  shows "a < x powr (12 / 5) \<and> x powr (12 / 5) < b"
proof -
  let ?y = "x powr (12 / 5)"
  have y0: "0 \<le> ?y" by simp
  from assms(1) have yp: "0 < ?y" by simp
  have "?y ^ 5 = ?y powr (real 5)" using powr_realpow [OF yp, of 5] by simp
  also have "\<dots> = x powr (12 / 5 * real 5)" by (simp only: powr_powr)
  also have "\<dots> = x powr (real 12)" by simp
  also have "\<dots> = x ^ 12" using powr_realpow [OF assms(1), of 12] by simp
  finally have y5: "?y ^ 5 = x ^ 12" .
  have "a < ?y"
  proof (rule ccontr)
    assume "\<not> a < ?y"
    then have "?y \<le> a" by simp
    with y0 have "?y ^ 5 \<le> a ^ 5" by (rule power_mono [rotated])
    with y5 assms(4) show False by simp
  qed
  moreover have "?y < b"
  proof (rule ccontr)
    assume "\<not> ?y < b"
    then have "b \<le> ?y" by simp
    with assms(3) have "b ^ 5 \<le> ?y ^ 5" by (rule power_mono [rotated])
    with y5 assms(5) show False by simp
  qed
  ultimately show ?thesis ..
qed

text \<open>Each channel of \<open>0x888888\<close> is stored as \<open>0.2462013...\<close>, the linear value of the sRGB
  value \<open>136/255\<close>.\<close>

lemma SRGBToLinear_136:
  "1231 / 5000 < SRGBToLinear (136 / 255) \<and> SRGBToLinear (136 / 255) < 24621 / 100000"
proof -
  have e: "SRGBToLinear (136 / 255) = (13941548183 / 25000000000) powr (12 / 5)"
    by (simp add: SRGBToLinear_def)
  have a: "((1231::real) / 5000) ^ 5 < (13941548183 / 25000000000) ^ 12"
    by (simp add: power_divide divide_simps)
  have b: "((13941548183::real) / 25000000000) ^ 12 < (24621 / 100000) ^ 5"
    by (simp add: power_divide divide_simps)
  show ?thesis unfolding e
    by (rule powr_12_5_bounds [OF _ _ _ a b]) simp_all
qed

lemma initialMaterial_color:
  "1231 / 5000 < cr (mat_color initialMaterial) \<and> cr (mat_color initialMaterial) < 24621 / 100000
   \<and> cg (mat_color initialMaterial) = cr (mat_color initialMaterial)
   \<and> cb (mat_color initialMaterial) = cr (mat_color initialMaterial)
   \<and> emissive initialMaterial = \<lparr>cr = 0, cg = 0, cb = 0\<rparr>"
  using SRGBToLinear_136 by (simp add: initialMaterial_def setHex_888888 setHex_0)

section \<open>The hexagonal grid\<close>

lemma in_hexCoords: "(q, r) \<in> set (hexCoords g) \<longleftrightarrow> validAxial g (q, r)"
proof -
  have "(q, r) \<in> set (hexCoords g) \<longleftrightarrow>
      - g \<le> q \<and> q \<le> g \<and> max (- g) (- q - g) \<le> r \<and> r \<le> min g (- q + g)"
    by (auto simp: hexCoords_def hexRow_def image_iff intro!: bexI [of _ q])
  also have "\<dots> \<longleftrightarrow> validAxial g (q, r)"
    by (auto simp: validAxial_def)
  finally show ?thesis .
qed

lemma length_hexRow:
  assumes "\<bar>q\<bar> \<le> g"
  shows "int (length (hexRow g q)) = 2 * g + 1 - \<bar>q\<bar>"
  using assms by (simp add: hexRow_def) linarith

lemma int_length_concat:
  "int (length (concat xss)) = sum_list (map (\<lambda>xs. int (length xs)) xss)"
  by (induction xss) simp_all

lemma hex_sum: "(\<Sum>q \<in> {- int n .. int n}. 2 * int n + 1 - \<bar>q\<bar>) = 3 * int n * int n + 3 * int n + 1"
proof (induction n)
  case 0
  show ?case by simp
next
  case (Suc n)
  have split: "{- int (Suc n) .. int (Suc n)} = insert (- int (Suc n)) (insert (int (Suc n)) {- int n .. int n})"
    by auto
  have "(\<Sum>q \<in> {- int (Suc n) .. int (Suc n)}. 2 * int (Suc n) + 1 - \<bar>q\<bar>)
      = (int n + 2) + (int n + 2) + (\<Sum>q \<in> {- int n .. int n}. 2 * int (Suc n) + 1 - \<bar>q\<bar>)"
    unfolding split by simp
  also have "(\<Sum>q \<in> {- int n .. int n}. 2 * int (Suc n) + 1 - \<bar>q\<bar>)
      = (\<Sum>q \<in> {- int n .. int n}. (2 * int n + 1 - \<bar>q\<bar>) + 2)"
    by (intro sum.cong) simp_all
  also have "\<dots> = (\<Sum>q \<in> {- int n .. int n}. 2 * int n + 1 - \<bar>q\<bar>) + 2 * (2 * int n + 1)"
    by (subst sum.distrib) simp
  finally show ?case
    using Suc.IH by (simp add: algebra_simps)
qed

lemma length_hexCoords:
  assumes "0 \<le> g"
  shows "int (length (hexCoords g)) = 3 * g * g + 3 * g + 1"
proof -
  have "int (length (hexCoords g)) = sum_list (map (\<lambda>q. int (length (hexRow g q))) [- g .. g])"
    by (simp add: hexCoords_def int_length_concat comp_def)
  also have "\<dots> = sum_list (map (\<lambda>q. 2 * g + 1 - \<bar>q\<bar>) [- g .. g])"
    by (intro arg_cong [where f = sum_list] map_cong refl length_hexRow) auto
  also have "\<dots> = (\<Sum>q \<in> {- g .. g}. 2 * g + 1 - \<bar>q\<bar>)"
    by (simp add: sum_list_distinct_conv_sum_set)
  also have "\<dots> = 3 * g * g + 3 * g + 1"
    using hex_sum [of "nat g"] assms by simp
  finally show ?thesis .
qed

lemma length_hexCoords_5: "length (hexCoords 5) = 91"
  using length_hexCoords [of 5] by simp

lemma distinct_hexCoords_5: "distinct (hexCoords 5)"
  by code_simp

text \<open>
  C4. With \<open>gridSize = 5\<close> the grid loop visits \<open>3 * 5 * 5 + 3 * 5 + 1 = 91\<close> pairs, no pair
  twice, each of them an axial coordinate of the hexagon of radius 5 (and every such
  coordinate is visited), and the shape made for \<open>(q, r)\<close> is placed at
  \<open>x = radius * (sqrt 3 * q + sqrt 3 / 2 * r)\<close>, \<open>y = 0\<close>, \<open>z = radius * (3 / 2 * r)\<close>.
\<close>

theorem hex_grid_loop_91:
  "length (hexCoords gridSize) = nat (3 * gridSize * gridSize + 3 * gridSize + 1)
   \<and> length (hexCoords gridSize) = 91
   \<and> distinct (hexCoords gridSize)
   \<and> (\<forall>qr \<in> set (hexCoords gridSize). validAxial gridSize qr)
   \<and> (\<forall>qr. validAxial gridSize qr \<longrightarrow> qr \<in> set (hexCoords gridSize))
   \<and> map position (shapes (sceneSetup cs w h)) =
       map (\<lambda>(q, r). \<lparr>vx = radius * (sqrt 3 * real_of_int q + sqrt 3 / 2 * real_of_int r),
                      vy = 0,
                      vz = radius * (3 / 2 * real_of_int r)\<rparr>) (hexCoords gridSize)"
proof -
  have "map position (shapes (sceneSetup cs w h)) = map (hexPosition radius) (hexCoords gridSize)"
    by (simp add: sceneSetup_def hexShapes_def newMesh_def comp_def)
  moreover have "hexPosition radius = (\<lambda>(q, r). \<lparr>vx = radius * (sqrt 3 * real_of_int q + sqrt 3 / 2 * real_of_int r),
                      vy = 0, vz = radius * (3 / 2 * real_of_int r)\<rparr>)"
    by (rule ext) (simp add: hexPosition_def)
  moreover have "qr \<in> set (hexCoords 5) \<longleftrightarrow> validAxial 5 qr" for qr
    using in_hexCoords [of "fst qr" "snd qr" 5] by simp
  ultimately show ?thesis
    by (simp add: gridSize_def length_hexCoords_5 distinct_hexCoords_5)
qed

theorem hex_grid_loop_91_witness:
  "(- 5, 5) \<in> set (hexCoords gridSize) \<and> validAxial gridSize (- 5, 5)"
proof -
  have m: "(- 5, 5) \<in> set (hexCoords gridSize)"
    unfolding gridSize_def by code_simp
  with hex_grid_loop_91 [of "[]" 800 600] show ?thesis
    by blast
qed

section \<open>Arc creation\<close>

lemma pickEnd_Done: "pickEnd n s rs = Done (e, rs') \<Longrightarrow> e \<noteq> s \<and> (0 < n \<longrightarrow> e < n)"
  by (induction rs) (auto simp: Let_def randomIndex_less split: if_splits)

lemma pickEnd_not_Thrown: "pickEnd n s rs \<noteq> Thrown x"
  by (induction rs) (auto simp: Let_def)

text \<open>When \<open>createArc\<close> returns, both indices were in range and differ.\<close>

lemma createArc_DoneD:
  assumes "createArc st rs = Done (a, st', rs')"
  shows "\<exists>s e r. s < length (shapes st) \<and> e < length (shapes st) \<and> e \<noteq> s
          \<and> a = newArc (next_id st) (position (shapes st ! s)) (position (shapes st ! e)) e r
          \<and> st' = st\<lparr>scene := scene st @ [LineNode (next_id st)], next_id := next_id st + 1\<rparr>"
proof -
  let ?n = "length (shapes st)"
  from assms obtain r0 rs1 where rs: "rs = r0 # rs1"
    by (cases rs) (simp_all add: createArc_def nextDraw_def)
  let ?s = "randomIndex r0 ?n"
  from assms rs obtain e rs2 where pe: "pickEnd ?n ?s rs1 = Done (e, rs2)"
    by (cases "pickEnd ?n ?s rs1") (auto simp: createArc_def nextDraw_def Let_def)
  from pickEnd_Done [OF pe] have ne: "e \<noteq> ?s" and lt: "0 < ?n \<longrightarrow> e < ?n"
    by simp_all
  have pos: "0 < ?n"
  proof (rule ccontr)
    assume "\<not> 0 < ?n"
    then have "?n = 0" by simp
    with assms rs pe show False
      by (simp add: createArc_def nextDraw_def Let_def positionAt_def)
  qed
  then have s: "?s < ?n" and e: "e < ?n"
    using lt by (simp_all add: randomIndex_less)
  from assms rs pe s e obtain r1 where rs2: "rs2 = r1 # rs'"
    by (cases rs2) (simp_all add: createArc_def nextDraw_def Let_def positionAt_def)
  from assms rs pe s e rs2
  have "a = newArc (next_id st) (position (shapes st ! ?s)) (position (shapes st ! e)) e r1"
    and "st' = st\<lparr>scene := scene st @ [LineNode (next_id st)], next_id := next_id st + 1\<rparr>"
    by (simp_all add: createArc_def nextDraw_def Let_def positionAt_def)
  with s e ne show ?thesis by blast
qed

lemma sqrt_16: "sqrt 16 = 4"
  by (rule real_sqrt_unique) auto

lemma controlPoint_example:
  "controlPoint \<lparr>vx = 0, vy = 0, vz = 0\<rparr> \<lparr>vx = 4, vy = 0, vz = 0\<rparr> = \<lparr>vx = 2, vy = 2, vz = 0\<rparr>"
  by (simp add: controlPoint_def addVectors_def multiplyScalar_def distanceTo_def sqrt_16)

text \<open>
  C6. Whenever \<open>createArc\<close> returns an arc from \<open>(0,0,0)\<close> to \<open>(4,0,0)\<close>, its control point
  is \<open>(2,2,0)\<close>: the midpoint raised along \<open>y\<close> by half the distance.
\<close>

theorem createArc_control_point:
  assumes "createArc st rs = Done (a, st', rs')"
    and "start a = \<lparr>vx = 0, vy = 0, vz = 0\<rparr>"
    and "arc_end a = \<lparr>vx = 4, vy = 0, vz = 0\<rparr>"
  shows "control a = \<lparr>vx = 2, vy = 2, vz = 0\<rparr>"
proof -
  from createArc_DoneD [OF assms(1)] obtain s e r i where
    a: "a = newArc i (position (shapes st ! s)) (position (shapes st ! e)) e r"
    by blast
  have "control a = controlPoint (start a) (arc_end a)"
    by (simp add: a newArc_def Let_def)
  with assms(2,3) show ?thesis by (simp add: controlPoint_example)
qed

lemma createArc_twoShapes:
  "createArc twoShapes [rnd_of 0, rnd_of (1 / 2), rnd_of 0] =
     Done (newArc 0 \<lparr>vx = 0, vy = 0, vz = 0\<rparr> \<lparr>vx = 4, vy = 0, vz = 0\<rparr> 1 (rnd_of 0),
           twoShapes\<lparr>scene := scene twoShapes @ [LineNode 0], next_id := 1\<rparr>, [])"
  by (simp add: createArc_def twoShapes_def nextDraw_def randomIndex_def positionAt_def
        sceneSetup_def newMesh_def)

theorem createArc_control_point_witness:
  "createArc twoShapes [rnd_of 0, rnd_of (1 / 2), rnd_of 0] =
     Done (newArc 0 \<lparr>vx = 0, vy = 0, vz = 0\<rparr> \<lparr>vx = 4, vy = 0, vz = 0\<rparr> 1 (rnd_of 0),
           twoShapes\<lparr>scene := scene twoShapes @ [LineNode 0], next_id := 1\<rparr>, [])
   \<and> control (newArc 0 \<lparr>vx = 0, vy = 0, vz = 0\<rparr> \<lparr>vx = 4, vy = 0, vz = 0\<rparr> 1 (rnd_of 0)) =
       \<lparr>vx = 2, vy = 2, vz = 0\<rparr>"
proof -
  have s: "start (newArc 0 \<lparr>vx = 0, vy = 0, vz = 0\<rparr> \<lparr>vx = 4, vy = 0, vz = 0\<rparr> 1 (rnd_of 0)) =
             \<lparr>vx = 0, vy = 0, vz = 0\<rparr>"
    and e: "arc_end (newArc 0 \<lparr>vx = 0, vy = 0, vz = 0\<rparr> \<lparr>vx = 4, vy = 0, vz = 0\<rparr> 1 (rnd_of 0)) =
             \<lparr>vx = 4, vy = 0, vz = 0\<rparr>"
    by (simp_all add: newArc_def Let_def)
  from createArc_control_point [OF createArc_twoShapes s e] createArc_twoShapes
  show ?thesis by simp
qed

section \<open>Resizing\<close>

text \<open>
  C8. Resizing to 1024 by 768, from any state and so from one set up at 800 by 600, sets
  the camera aspect to \<open>1024 / 768\<close> and the renderer size to \<open>(1024, 768)\<close>; the projection
  follows the aspect, and the shapes, the arcs, the shimmer list, the camera position and
  every other field stay as they were.
\<close>

theorem handleResize_1024_768:
  "camera_aspect (handleResize 1024 768 st) = 1024 / 768
   \<and> renderer_size (handleResize 1024 768 st) = (1024, 768)
   \<and> shapes (handleResize 1024 768 st) = shapes st
   \<and> arcs (handleResize 1024 768 st) = arcs st
   \<and> shimmerAnimations (handleResize 1024 768 st) = shimmerAnimations st
   \<and> camera_position (handleResize 1024 768 st) = camera_position st
   \<and> handleResize 1024 768 st =
       st\<lparr>camera_aspect := 1024 / 768, projection_aspect := 1024 / 768,
          renderer_size := (1024, 768)\<rparr>"
  by (simp add: handleResize_def Let_def)

section \<open>The frame callback never throws and keeps the pool\<close>

lemma obind_not_Thrown:
  "m \<noteq> Thrown e \<Longrightarrow> (\<And>x. m = Done x \<Longrightarrow> f x \<noteq> Thrown e) \<Longrightarrow> obind m f \<noteq> Thrown e"
  by (cases m) simp_all

subsection \<open>shuffle\<close>

lemma shuffle_Done:
  "k \<le> length xs - 1 \<Longrightarrow> shuffle k xs rs = Done (ys, rs')
     \<Longrightarrow> set ys = set xs \<and> distinct ys = distinct xs \<and> length ys = length xs"
proof (induction k xs rs rule: shuffle.induct)
  case (1 xs rs)
  then show ?case by simp
next
  case (2 k xs)
  then show ?case by simp
next
  case (3 k xs r rs)
  let ?i = "Suc k"
  let ?j = "randomIndex r (?i + 1)"
  let ?xs = "xs[?i := xs ! ?j, ?j := xs ! ?i]"
  from "3.prems"(1) have i: "?i < length xs" by simp
  have "?j < ?i + 1" by (rule randomIndex_less) simp
  with i have j: "?j < length xs" by simp
  from "3.prems"(2) have sh: "shuffle k ?xs rs = Done (ys, rs')"
    by (simp add: Let_def)
  have "k \<le> length ?xs - 1" using i by simp
  from "3.IH" [OF refl refl this sh]
  have "set ys = set ?xs \<and> distinct ys = distinct ?xs \<and> length ys = length ?xs" .
  with i j show ?case
    by (simp add: set_swap distinct_swap)
qed

lemma shuffle_not_Thrown: "shuffle k xs rs \<noteq> Thrown e"
  by (induction k xs rs rule: shuffle.induct) (simp_all add: Let_def)

lemma shuffle_returns: "k \<le> length rs \<Longrightarrow> \<exists>ys. shuffle k xs rs = Done (ys, drop k rs)"
  by (induction k xs rs rule: shuffle.induct) (simp_all add: Let_def)

subsection \<open>createArc\<close>

lemma positionAt_Done [simp]: "i < length ms \<Longrightarrow> positionAt ms i = Done (position (ms ! i))"
  by (simp add: positionAt_def)

lemma pickEnd_draw: "pickEnd n s rs = Done (e, rs') \<Longrightarrow> \<exists>r. e = randomIndex r n"
  by (induction rs) (auto simp: Let_def split: if_splits)

lemma pickEnd_range:
  assumes "pickEnd n (randomIndex r0 n) rs = Done (e, rs')"
  shows "0 < n" and "e < n"
proof -
  from pickEnd_draw [OF assms] obtain r where e: "e = randomIndex r n" by blast
  from pickEnd_Done [OF assms] have ne: "e \<noteq> randomIndex r0 n" by simp
  show "0 < n"
  proof (rule ccontr)
    assume "\<not> 0 < n"
    with e ne show False by simp
  qed
  then show "e < n" by (simp add: e randomIndex_less)
qed

lemma createArc_not_Thrown: "createArc st rs \<noteq> Thrown x"
proof (cases rs)
  case Nil
  then show ?thesis by (simp add: createArc_def nextDraw_def)
next
  case (Cons r0 rs1)
  let ?n = "length (shapes st)"
  let ?s = "randomIndex r0 ?n"
  show ?thesis
  proof (cases "pickEnd ?n ?s rs1")
    case (Done p)
    obtain e rs2 where p: "p = (e, rs2)" by (cases p)
    from pickEnd_range [OF Done [unfolded p]] have "0 < ?n" and lt: "e < ?n"
      by simp_all
    then show ?thesis using Cons Done p
      by (cases rs2) (simp_all add: createArc_def nextDraw_def Let_def randomIndex_less)
  next
    case (Thrown y)
    then show ?thesis by (simp add: pickEnd_not_Thrown)
  next
    case Starved
    then show ?thesis using Cons by (simp add: createArc_def nextDraw_def Let_def)
  qed
qed

lemma newArc_sel [simp]:
  "progress (newArc i s e t r) = 0"
  "active (newArc i s e t r)"
  "speed (newArc i s e t r) = 0.02 + value_of r * 0.03"
  "line_id (line (newArc i s e t r)) = i"
  "targetShape (newArc i s e t r) = Some t"
  "start (newArc i s e t r) = s"
  "arc_end (newArc i s e t r) = e"
  "control (newArc i s e t r) = controlPoint s e"
  by (simp_all add: newArc_def Let_def)

lemma newArc_invariant: "arcInvariant (newArc i s e t r)"
  using value_of_bounds [of r] by (simp add: arcInvariant_def)

lemma newArc_fresh: "freshArc (newArc i s e t r)"
  using value_of_bounds [of r] by (simp add: freshArc_def) (simp add: newArc_def Let_def)

lemma freshArc_invariant: "freshArc a \<Longrightarrow> arcInvariant a"
  by (simp add: freshArc_def arcInvariant_def)

lemma replaceArc_DoneD:
  assumes "replaceArc index a st rs = Done (st', rs')"
  shows "\<exists>s e t r.
           st' = st\<lparr>arcs := (arcs st)[index := newArc (next_id st) s e t r],
                    scene := sceneRemove (LineNode (line_id (line a))) (scene st) @ [LineNode (next_id st)],
                    released := released st @ [LineGeometry (line_id (line a)), LineMaterial (line_id (line a))],
                    next_id := next_id st + 1\<rparr>"
proof -
  from assms obtain a' st1 where c: "createArc (disposeArc a st) rs = Done (a', st1, rs')"
    and st': "st' = st1\<lparr>arcs := (arcs st1)[index := a']\<rparr>"
    by (auto simp: replaceArc_def obind_eq_Done)
  from createArc_DoneD [OF c] obtain s e r where
    "a' = newArc (next_id (disposeArc a st)) (position (shapes (disposeArc a st) ! s))
            (position (shapes (disposeArc a st) ! e)) e r"
    and "st1 = (disposeArc a st)\<lparr>scene := scene (disposeArc a st) @ [LineNode (next_id (disposeArc a st))],
                 next_id := next_id (disposeArc a st) + 1\<rparr>"
    by blast
  with st' have "st' = st\<lparr>arcs := (arcs st)[index := newArc (next_id st) (position (shapes st ! s)) (position (shapes st ! e)) e r],
                    scene := sceneRemove (LineNode (line_id (line a))) (scene st) @ [LineNode (next_id st)],
                    released := released st @ [LineGeometry (line_id (line a)), LineMaterial (line_id (line a))],
                    next_id := next_id st + 1\<rparr>"
    by (simp add: disposeArc_def)
  then show ?thesis by blast
qed

lemma replaceArc_not_Thrown: "replaceArc index a st rs \<noteq> Thrown x"
  unfolding replaceArc_def
  by (rule obind_not_Thrown) (auto simp: createArc_not_Thrown)

lemma recomputeVisible_DoneD:
  assumes "recomputeVisible fails a = Done a'"
  shows "\<not> fails a" and "progress a' = progress a" and "speed a' = speed a"
    and "active a' = active a" and "line_id (line a') = line_id (line a)"
    and "start a' = start a" and "arc_end a' = arc_end a" and "control a' = control a"
    and "targetShape a' = targetShape a"
  using assms by (auto simp: recomputeVisible_def Let_def split: if_splits)

lemma recomputeVisible_Thrown: "recomputeVisible fails a = Thrown x \<longleftrightarrow> fails a \<and> x = GeometryError"
  by (auto simp: recomputeVisible_def Let_def)

lemma recomputeVisible_not_Starved: "recomputeVisible fails a \<noteq> Starved"
  by (simp add: recomputeVisible_def Let_def)

text \<open>The four ways \<open>updateArc\<close> returns.\<close>

lemma updateArc_DoneE:
  assumes "updateArc fails index st rs = Done (st', rs')"
  obtains
    (inactive) "index < length (arcs st)" "\<not> active (arcs st ! index)" "st' = st" "rs' = rs"
  | (advanced) a' where "index < length (arcs st)" "active (arcs st ! index)"
      "progress (arcs st ! index) + speed (arcs st ! index) < 1"
      "recomputeVisible fails ((arcs st ! index)\<lparr>progress := progress (arcs st ! index) + speed (arcs st ! index)\<rparr>) = Done a'"
      "st' = st\<lparr>arcs := (arcs st)[index := a']\<rparr>" "rs' = rs"
  | (completed) "index < length (arcs st)" "active (arcs st ! index)"
      "1 \<le> progress (arcs st ! index) + speed (arcs st ! index)"
      "replaceArc index ((arcs st ! index)\<lparr>progress := progress (arcs st ! index) + speed (arcs st ! index)\<rparr>)
         (case targetShape (arcs st ! index) of
            Some t \<Rightarrow> startShimmerEffect t (st\<lparr>arcs := (arcs st)[index := (arcs st ! index)\<lparr>progress := progress (arcs st ! index) + speed (arcs st ! index)\<rparr>]\<rparr>)
          | None \<Rightarrow> st\<lparr>arcs := (arcs st)[index := (arcs st ! index)\<lparr>progress := progress (arcs st ! index) + speed (arcs st ! index)\<rparr>]\<rparr>) rs
       = Done (st', rs')"
  | (failed) "index < length (arcs st)" "active (arcs st ! index)"
      "progress (arcs st ! index) + speed (arcs st ! index) < 1"
      "fails ((arcs st ! index)\<lparr>progress := progress (arcs st ! index) + speed (arcs st ! index)\<rparr>)"
      "replaceArc index ((arcs st ! index)\<lparr>progress := progress (arcs st ! index) + speed (arcs st ! index)\<rparr>)
         (st\<lparr>arcs := (arcs st)[index := (arcs st ! index)\<lparr>progress := progress (arcs st ! index) + speed (arcs st ! index)\<rparr>]\<rparr>) rs
       = Done (st', rs')"
proof -
  let ?a = "(arcs st ! index)\<lparr>progress := progress (arcs st ! index) + speed (arcs st ! index)\<rparr>"
  from assms have i: "index < length (arcs st)"
    by (auto simp: updateArc_def split: if_splits)
  show thesis
  proof (cases "active (arcs st ! index)")
    case False
    with assms i show thesis by (intro inactive) (simp_all add: updateArc_def)
  next
    case act: True
    show thesis
    proof (cases "1 \<le> progress (arcs st ! index) + speed (arcs st ! index)")
      case True
      with assms i act show thesis
        by (intro completed) (simp_all add: updateArc_def Let_def)
    next
      case False
      then have lt: "progress (arcs st ! index) + speed (arcs st ! index) < 1" by simp
      show thesis
      proof (cases "recomputeVisible fails ?a")
        case (Done a')
        with assms i act lt show thesis
          by (intro advanced [of a']) (simp_all add: updateArc_def Let_def)
      next
        case (Thrown x)
        then have "fails ?a" by (simp add: recomputeVisible_Thrown)
        with assms i act lt Thrown show thesis
          by (intro failed) (simp_all add: updateArc_def Let_def)
      next
        case Starved
        then show thesis by (simp add: recomputeVisible_not_Starved)
      qed
    qed
  qed
qed

lemma updateArc_length:
  assumes "updateArc fails index st rs = Done (st', rs')"
  shows "length (arcs st') = length (arcs st)"
  using assms
proof (cases rule: updateArc_DoneE)
  case completed
  from replaceArc_DoneD [OF completed(4)] show ?thesis
    by (auto simp: startShimmerEffect_def split: option.splits)
next
  case failed
  from replaceArc_DoneD [OF failed(5)] show ?thesis by auto
qed simp_all

lemma outsidePool_refl [simp]: "outsidePool st st"
  by (simp add: outsidePool_def)

lemma outsidePool_trans: "outsidePool st st1 \<Longrightarrow> outsidePool st1 st2 \<Longrightarrow> outsidePool st st2"
  by (simp add: outsidePool_def)

lemma updateArc_outsidePool:
  assumes "updateArc fails index st rs = Done (st', rs')"
  shows "outsidePool st st'"
  using assms
proof (cases rule: updateArc_DoneE)
  case completed
  from replaceArc_DoneD [OF completed(4)] show ?thesis
    by (auto simp: outsidePool_def startShimmerEffect_def split: option.splits)
next
  case failed
  from replaceArc_DoneD [OF failed(5)] show ?thesis by (auto simp: outsidePool_def)
qed (simp_all add: outsidePool_def)

lemma updateArc_other:
  assumes "updateArc fails index st rs = Done (st', rs')" and "j \<noteq> index"
  shows "arcs st' ! j = arcs st ! j"
  using assms(1)
proof (cases rule: updateArc_DoneE)
  case completed
  from replaceArc_DoneD [OF completed(4)] assms(2) show ?thesis
    by (auto simp: startShimmerEffect_def split: option.splits)
next
  case failed
  from replaceArc_DoneD [OF failed(5)] assms(2) show ?thesis by auto
qed (use assms(2) in simp_all)

lemma updateArc_step:
  assumes "updateArc fails index st rs = Done (st', rs')"
  shows "arcStep fails (arcs st ! index) (arcs st' ! index)"
  using assms
proof (cases rule: updateArc_DoneE)
  case inactive
  then show ?thesis by (simp add: arcStep_def)
next
  case (advanced a')
  from recomputeVisible_DoneD [OF advanced(4)] advanced(1,3,5) show ?thesis
    by (simp add: arcStep_def)
next
  case completed
  from replaceArc_DoneD [OF completed(4)] have "freshArc (arcs st' ! index)"
    using completed(1) by (auto simp: startShimmerEffect_def newArc_fresh split: option.splits)
  with completed(3) show ?thesis
    unfolding arcStep_def by blast
next
  case failed
  from replaceArc_DoneD [OF failed(5)] have "freshArc (arcs st' ! index)"
    using failed(1) by (auto simp: newArc_fresh)
  with failed(4) show ?thesis
    unfolding arcStep_def by blast
qed

lemma arcStep_invariant: "arcInvariant a \<Longrightarrow> arcStep fails a a' \<Longrightarrow> arcInvariant a'"
  unfolding arcStep_def
  by (auto simp: freshArc_invariant) (simp_all add: arcInvariant_def)

lemma updateArc_not_Thrown:
  assumes "index < length (arcs st)"
  shows "updateArc fails index st rs \<noteq> Thrown x"
proof -
  let ?a = "(arcs st ! index)\<lparr>progress := progress (arcs st ! index) + speed (arcs st ! index)\<rparr>"
  show ?thesis
  proof (cases "recomputeVisible fails ?a")
    case (Done a')
    with assms show ?thesis
      by (simp add: updateArc_def Let_def replaceArc_not_Thrown)
  next
    case (Thrown y)
    with assms show ?thesis
      by (simp add: updateArc_def Let_def replaceArc_not_Thrown)
  next
    case Starved
    then show ?thesis by (simp add: recomputeVisible_not_Starved)
  qed
qed

subsection \<open>updateArcs\<close>

lemma updateArcs_length:
  "updateArcs fails is st rs = Done (st', rs') \<Longrightarrow> length (arcs st') = length (arcs st)"
proof (induction "is" arbitrary: st rs)
  case Nil
  then show ?case by simp
next
  case (Cons i "is")
  from Cons.prems obtain st1 rs1 where
    u: "updateArc fails i st rs = Done (st1, rs1)" and
    r: "updateArcs fails is st1 rs1 = Done (st', rs')"
    by (auto simp: obind_eq_Done)
  from Cons.IH [OF r] updateArc_length [OF u] show ?case by simp
qed

lemma updateArcs_outsidePool:
  "updateArcs fails is st rs = Done (st', rs') \<Longrightarrow> outsidePool st st'"
proof (induction "is" arbitrary: st rs)
  case Nil
  then show ?case by simp
next
  case (Cons i "is")
  from Cons.prems obtain st1 rs1 where
    u: "updateArc fails i st rs = Done (st1, rs1)" and
    r: "updateArcs fails is st1 rs1 = Done (st', rs')"
    by (auto simp: obind_eq_Done)
  from Cons.IH [OF r] updateArc_outsidePool [OF u] show ?case
    by (rule outsidePool_trans [rotated])
qed

lemma updateArcs_other:
  "updateArcs fails is st rs = Done (st', rs') \<Longrightarrow> j \<notin> set is \<Longrightarrow> arcs st' ! j = arcs st ! j"
proof (induction "is" arbitrary: st rs)
  case Nil
  then show ?case by simp
next
  case (Cons i "is")
  from Cons.prems obtain st1 rs1 where
    u: "updateArc fails i st rs = Done (st1, rs1)" and
    r: "updateArcs fails is st1 rs1 = Done (st', rs')"
    by (auto simp: obind_eq_Done)
  from Cons.prems(2) have "j \<noteq> i" "j \<notin> set is" by simp_all
  with Cons.IH [OF r] updateArc_other [OF u] show ?case by simp
qed

lemma updateArcs_step:
  "updateArcs fails is st rs = Done (st', rs') \<Longrightarrow> distinct is
     \<Longrightarrow> arcStep fails (arcs st ! j) (arcs st' ! j)"
proof (induction "is" arbitrary: st rs)
  case Nil
  then show ?case by (simp add: arcStep_def)
next
  case (Cons i "is")
  from Cons.prems obtain st1 rs1 where
    u: "updateArc fails i st rs = Done (st1, rs1)" and
    r: "updateArcs fails is st1 rs1 = Done (st', rs')"
    by (auto simp: obind_eq_Done)
  from Cons.prems(2) have d: "distinct is" and ni: "i \<notin> set is" by simp_all
  show ?case
  proof (cases "j = i")
    case True
    with updateArcs_other [OF r ni] updateArc_step [OF u] show ?thesis by simp
  next
    case False
    with updateArc_other [OF u] Cons.IH [OF r d] show ?thesis by simp
  qed
qed

lemma updateArcs_not_Thrown:
  "\<forall>i \<in> set is. i < length (arcs st) \<Longrightarrow> updateArcs fails is st rs \<noteq> Thrown x"
proof (induction "is" arbitrary: st rs)
  case Nil
  then show ?case by simp
next
  case (Cons i "is")
  show ?case
  proof (cases "updateArc fails i st rs")
    case (Done p)
    obtain st1 rs1 where p: "p = (st1, rs1)" by (cases p)
    from updateArc_length [OF Done [unfolded p]] Cons.prems
    have "\<forall>i \<in> set is. i < length (arcs st1)" by simp
    from Cons.IH [OF this] Done p show ?thesis by simp
  next
    case (Thrown y)
    with updateArc_not_Thrown [of i st fails rs y] Cons.prems show ?thesis by simp
  next
    case Starved
    then show ?thesis by simp
  qed
qed

subsection \<open>animate\<close>

lemma updateShimmers_fields:
  "arcs (updateShimmers st) = arcs st"
  "pending_frames (updateShimmers st) = pending_frames st"
  "animationFrameId (updateShimmers st) = animationFrameId st"
  "next_frame (updateShimmers st) = next_frame st"
  "mountRef_current (updateShimmers st) = mountRef_current st"
  "textMesh (updateShimmers st) = textMesh st"
  "resize_listener (updateShimmers st) = resize_listener st"
  "shapes (updateShimmers st) = shapes st"
  by (simp_all add: updateShimmers_def split: prod.splits)

lemma animate_DoneE:
  assumes "animate fails now st rs = Done (st', rs')"
  obtains shuffled rs1 st3 st4 where
    "arcs st3 = arcs st"
    "pending_frames st3 = pending_frames st @ [next_frame st]"
    "animationFrameId st3 = Some (next_frame st)"
    "next_frame st3 = next_frame st + 1"
    "mountRef_current st3 = mountRef_current st"
    "textMesh st3 = textMesh st"
    "resize_listener st3 = resize_listener st"
    "shimmerAnimations st3 = shimmerAnimations st"
    "material st3 = material st"
    "shuffle (length (arcs st) - 1) [0 ..< length (arcs st)] rs = Done (shuffled, rs1)"
    "updateArcs fails (take (max 1 (nat \<lfloor>real (length (arcs st)) * 0.3\<rfloor>)) shuffled) st3 rs1 = Done (st4, rs')"
    "st' = render (updateShimmers st4)"
proof -
  let ?st3 = "(requestAnimationFrame st)
      \<lparr>camera_position := \<lparr>vx = cos (now * 0.001 * camera_velocity) * 8,
                            vy = sin (now * 0.001 * camera_velocity) * 3,
                            vz = sin (now * 0.001 * camera_velocity) * 8\<rparr>,
       shapes := rotateShapes (shapes (requestAnimationFrame st))\<rparr>"
  from assms obtain shuffled rs1 where
    sh: "shuffle (length (arcs st) - 1) [0 ..< length (arcs st)] rs = Done (shuffled, rs1)"
    by (cases "shuffle (length (arcs st) - 1) [0 ..< length (arcs st)] rs")
       (auto simp: animate_def Let_def requestAnimationFrame_def)
  from assms sh obtain st4 where
    up: "updateArcs fails (take (max 1 (nat \<lfloor>real (length (arcs st)) * 0.3\<rfloor>)) shuffled) ?st3 rs1 = Done (st4, rs')"
    and st': "st' = render (updateShimmers st4)"
    by (auto simp: animate_def Let_def requestAnimationFrame_def obind_eq_Done)
  show thesis
  proof (rule that [of ?st3 shuffled rs1 st4])
    show "shuffle (length (arcs st) - 1) [0 ..< length (arcs st)] rs = Done (shuffled, rs1)"
      by (rule sh)
    show "updateArcs fails (take (max 1 (nat \<lfloor>real (length (arcs st)) * 0.3\<rfloor>)) shuffled) ?st3 rs1 = Done (st4, rs')"
      by (rule up)
    show "st' = render (updateShimmers st4)"
      by (rule st')
  qed (simp_all add: requestAnimationFrame_def)
qed

lemma shuffled_indices:
  assumes "shuffle (n - 1) [0 ..< n] rs = Done (shuffled, rs1)"
  shows "distinct (take k shuffled)" and "\<forall>i \<in> set (take k shuffled). i < n"
proof -
  have "n - 1 \<le> length [0 ..< n] - 1" by simp
  from shuffle_Done [OF this assms]
  have s: "set shuffled = {0 ..< n}" and d: "distinct shuffled" by simp_all
  from d show "distinct (take k shuffled)" by simp
  from s show "\<forall>i \<in> set (take k shuffled). i < n"
    using set_take_subset [of k shuffled] by auto
qed

lemma animate_length:
  assumes "animate fails now st rs = Done (st', rs')"
  shows "length (arcs st') = length (arcs st)"
  using assms
proof (cases rule: animate_DoneE)
  case (1 shuffled rs1 st3 st4)
  from updateArcs_length [OF 1(11)] 1(1,12) show ?thesis
    by (simp add: render_def updateShimmers_fields)
qed

lemma animate_step:
  assumes "animate fails now st rs = Done (st', rs')"
  shows "arcStep fails (arcs st ! j) (arcs st' ! j)"
  using assms
proof (cases rule: animate_DoneE)
  case (1 shuffled rs1 st3 st4)
  from updateArcs_step [OF 1(11) shuffled_indices(1) [OF 1(10)], of j] 1(1,12)
  show ?thesis
    by (simp add: render_def updateShimmers_fields)
qed

lemma animate_host:
  assumes "animate fails now st rs = Done (st', rs')"
  shows "pending_frames st' = pending_frames st @ [next_frame st]
    \<and> animationFrameId st' = Some (next_frame st)
    \<and> mountRef_current st' = mountRef_current st
    \<and> textMesh st' = textMesh st
    \<and> resize_listener st' = resize_listener st"
  using assms
proof (cases rule: animate_DoneE)
  case (1 shuffled rs1 st3 st4)
  from updateArcs_outsidePool [OF 1(11)] have "outsidePool st3 st4" .
  with 1(2-7,12) show ?thesis
    by (simp add: outsidePool_def render_def updateShimmers_fields)
qed

lemma animate_not_Thrown: "animate fails now st rs \<noteq> Thrown x"
proof -
  let ?st3 = "(requestAnimationFrame st)
      \<lparr>camera_position := \<lparr>vx = cos (now * 0.001 * camera_velocity) * 8,
                            vy = sin (now * 0.001 * camera_velocity) * 3,
                            vz = sin (now * 0.001 * camera_velocity) * 8\<rparr>,
       shapes := rotateShapes (shapes (requestAnimationFrame st))\<rparr>"
  let ?n = "length (arcs st)"
  have eq: "animate fails now st rs =
      obind (shuffle (?n - 1) [0 ..< ?n] rs) (\<lambda>(shuffled, rs1).
        obind (updateArcs fails (take (max 1 (nat \<lfloor>real ?n * 0.3\<rfloor>)) shuffled) ?st3 rs1)
          (\<lambda>(st4, rs2). Done (render (updateShimmers st4), rs2)))"
    by (simp add: animate_def Let_def requestAnimationFrame_def)
  show ?thesis
    unfolding eq
  proof (rule obind_not_Thrown)
    show "shuffle (?n - 1) [0 ..< ?n] rs \<noteq> Thrown x"
      by (rule shuffle_not_Thrown)
  next
    fix p
    assume sh: "shuffle (?n - 1) [0 ..< ?n] rs = Done p"
    obtain shuffled rs1 where p: "p = (shuffled, rs1)" by (cases p)
    have "\<forall>i \<in> set (take (max 1 (nat \<lfloor>real ?n * 0.3\<rfloor>)) shuffled). i < length (arcs ?st3)"
      using shuffled_indices(2) [OF sh [unfolded p]]
      by (simp add: requestAnimationFrame_def)
    from updateArcs_not_Thrown [OF this, of fails rs1 x]
    show "(case p of (shuffled, rs1) \<Rightarrow>
            obind (updateArcs fails (take (max 1 (nat \<lfloor>real ?n * 0.3\<rfloor>)) shuffled) ?st3 rs1)
              (\<lambda>(st4, rs2). Done (render (updateShimmers st4), rs2))) \<noteq> Thrown x"
      unfolding p prod.case
      by (rule obind_not_Thrown) auto
  qed
qed

section \<open>Invariants of the mounted scene\<close>

lemma createArc_fields:
  assumes "createArc st rs = Done (a, st', rs')"
  shows "arcs st' = arcs st" and "outsidePool st st'" and "arcInvariant a"
    and "freshArc a"
proof -
  from createArc_DoneD [OF assms] obtain s e r where
    a: "a = newArc (next_id st) (position (shapes st ! s)) (position (shapes st ! e)) e r"
    and st': "st' = st\<lparr>scene := scene st @ [LineNode (next_id st)], next_id := next_id st + 1\<rparr>"
    by blast
  from st' show "arcs st' = arcs st" and "outsidePool st st'"
    by (simp_all add: outsidePool_def)
  from a show "arcInvariant a" by (simp add: newArc_invariant)
  from a show "freshArc a" by (simp add: newArc_fresh)
qed

lemma initArcs_DoneD:
  "initArcs n st rs = Done (st', rs') \<Longrightarrow>
     length (arcs st') = length (arcs st) + n
     \<and> (\<forall>a \<in> set (arcs st'). a \<in> set (arcs st) \<or> freshArc a)
     \<and> outsidePool st st'"
proof (induction n arbitrary: st rs)
  case 0
  then show ?case by simp
next
  case (Suc n)
  from Suc.prems obtain a st1 rs1 where
    c: "createArc st rs = Done (a, st1, rs1)" and
    r: "initArcs n (st1\<lparr>arcs := arcs st1 @ [a]\<rparr>) rs1 = Done (st', rs')"
    by (auto simp: obind_eq_Done)
  note f = createArc_fields [OF c]
  have o: "outsidePool st (st1\<lparr>arcs := arcs st1 @ [a]\<rparr>)"
    using f(2) by (simp add: outsidePool_def)
  from Suc.IH [OF r] have
    len: "length (arcs st') = length (arcs (st1\<lparr>arcs := arcs st1 @ [a]\<rparr>)) + n" and
    mem: "\<forall>b \<in> set (arcs st'). b \<in> set (arcs (st1\<lparr>arcs := arcs st1 @ [a]\<rparr>))
            \<or> freshArc b" and
    o': "outsidePool (st1\<lparr>arcs := arcs st1 @ [a]\<rparr>) st'"
    by simp_all
  from len f(1) have "length (arcs st') = length (arcs st) + Suc n" by simp
  moreover have "\<forall>b \<in> set (arcs st'). b \<in> set (arcs st) \<or> freshArc b"
  proof
    fix b assume "b \<in> set (arcs st')"
    with mem have "b \<in> set (arcs st1) \<or> b = a \<or> freshArc b"
      by auto
    with f(1,4) show "b \<in> set (arcs st) \<or> freshArc b"
      by auto
  qed
  moreover from o o' have "outsidePool st st'" by (rule outsidePool_trans)
  ultimately show ?case by simp
qed

lemma mountEffect_DoneE:
  assumes "mountEffect fails (Some cs) w h now rs = Done (Some st0, rs0)"
  obtains st1 rs1 st2 where
    "initArcs maxArcs (sceneSetup cs w h) rs = Done (st1, rs1)"
    "animate fails now (addLightsAndStars st1) rs1 = Done (st2, rs0)"
    "st0 = st2\<lparr>resize_listener := True\<rparr>"
  using assms
  by (auto simp: mountEffect_def obind_eq_Done)

lemma animate_poolInvariant:
  assumes "animate fails now st rs = Done (st', rs')" and "poolInvariant st"
  shows "poolInvariant st'"
proof -
  from animate_length [OF assms(1)] have len: "length (arcs st') = length (arcs st)" .
  have "arcInvariant (arcs st' ! j)" if "j < length (arcs st')" for j
  proof -
    from that len assms(2) have "arcInvariant (arcs st ! j)"
      by (simp add: poolInvariant_def)
    with animate_step [OF assms(1), of j] show ?thesis
      by (rule arcStep_invariant [rotated])
  qed
  with len assms(2) show ?thesis
    by (auto simp: poolInvariant_def in_set_conv_nth)
qed

lemma mount_invariants:
  assumes "mountEffect fails (Some cs) w h now rs = Done (Some st0, rs0)"
  shows "poolInvariant st0" and "hostInvariant st0" and "textMesh st0 = None"
proof -
  from assms obtain st1 rs1 st2 where
    i: "initArcs maxArcs (sceneSetup cs w h) rs = Done (st1, rs1)" and
    a: "animate fails now (addLightsAndStars st1) rs1 = Done (st2, rs0)" and
    st0: "st0 = st2\<lparr>resize_listener := True\<rparr>"
    by (rule mountEffect_DoneE)
  from initArcs_DoneD [OF i]
  have len: "length (arcs st1) = maxArcs"
    and new: "\<forall>a \<in> set (arcs st1). freshArc a"
    and o: "outsidePool (sceneSetup cs w h) st1"
    by (simp_all add: sceneSetup_def)
  from len new have "poolInvariant (addLightsAndStars st1)"
    by (auto simp: poolInvariant_def addLightsAndStars_def freshArc_invariant)
  from animate_poolInvariant [OF a this] st0 show "poolInvariant st0"
    by (simp add: poolInvariant_def)
  from o have "pending_frames (addLightsAndStars st1) = []"
    and "mountRef_current (addLightsAndStars st1) = Some (cs @ [Canvas])"
    and "textMesh (addLightsAndStars st1) = None"
    by (simp_all add: outsidePool_def addLightsAndStars_def sceneSetup_def)
  with animate_host [OF a] st0 show "hostInvariant st0" and "textMesh st0 = None"
    by (simp_all add: hostInvariant_iff)
qed

lemma fire_invariants:
  assumes "fire fails ev st rs = Done (st', rs')" and "poolInvariant st" and "hostInvariant st"
  shows "poolInvariant st'" and "hostInvariant st'"
proof -
  show "poolInvariant st'"
  proof (cases ev)
    case (Frame now)
    from assms(3) obtain f where p: "pending_frames st = [f]"
      by (auto simp: hostInvariant_iff)
    with assms(1) Frame have a: "animate fails now (st\<lparr>pending_frames := []\<rparr>) rs = Done (st', rs')"
      by (simp add: fire_def)
    from assms(2) have "poolInvariant (st\<lparr>pending_frames := []\<rparr>)"
      by (simp add: poolInvariant_def)
    from animate_poolInvariant [OF a this] show ?thesis .
  next
    case (Resize w h)
    with assms(1,2) show ?thesis
      by (auto simp: fire_def poolInvariant_def handleResize_def Let_def split: if_splits)
  next
    case (FontLoaded tw)
    with assms(1,2) show ?thesis
      by (auto simp: fire_def poolInvariant_def fontLoaded_def)
  qed
  show "hostInvariant st'"
  proof (cases ev)
    case (Frame now)
    from assms(3) obtain f where p: "pending_frames st = [f]"
      by (auto simp: hostInvariant_iff)
    with assms(1) Frame have a: "animate fails now (st\<lparr>pending_frames := []\<rparr>) rs = Done (st', rs')"
      by (simp add: fire_def)
    from animate_host [OF a] assms(3) show ?thesis
      by (simp add: hostInvariant_iff)
  next
    case (Resize w h)
    with assms(1,3) show ?thesis
      by (auto simp: fire_def hostInvariant_iff handleResize_def Let_def split: if_splits)
  next
    case (FontLoaded tw)
    with assms(1,3) show ?thesis
      by (auto simp: fire_def hostInvariant_iff fontLoaded_def)
  qed
qed

lemma run_invariants:
  "run fails evs st rs = Done (st', rs') \<Longrightarrow> poolInvariant st \<Longrightarrow> hostInvariant st
     \<Longrightarrow> poolInvariant st' \<and> hostInvariant st'"
proof (induction evs arbitrary: st rs)
  case Nil
  then show ?case by simp
next
  case (Cons ev evs)
  from Cons.prems(1) obtain st1 rs1 where
    f: "fire fails ev st rs = Done (st1, rs1)" and
    r: "run fails evs st1 rs1 = Done (st', rs')"
    by (auto simp: obind_eq_Done)
  from fire_invariants [OF f Cons.prems(2,3)] Cons.IH [OF r] show ?case by simp
qed

lemma fire_step:
  assumes "fire fails ev st rs = Done (st', rs')"
  shows "arcStep fails (arcs st ! j) (arcs st' ! j)"
proof (cases ev)
  case (Frame now)
  show ?thesis
  proof (cases "pending_frames st")
    case Nil
    with assms Frame show ?thesis by (simp add: fire_def arcStep_def)
  next
    case (Cons f fs)
    with assms Frame have "animate fails now (st\<lparr>pending_frames := fs\<rparr>) rs = Done (st', rs')"
      by (simp add: fire_def)
    from animate_step [OF this, of j] show ?thesis by simp
  qed
next
  case (Resize w h)
  with assms show ?thesis
    by (auto simp: fire_def arcStep_def handleResize_def Let_def split: if_splits)
next
  case (FontLoaded tw)
  with assms show ?thesis
    by (auto simp: fire_def arcStep_def fontLoaded_def)
qed

section \<open>When the calls return\<close>

lemma createArc_returns:
  assumes "randomIndex r1 (length (shapes st)) \<noteq> randomIndex r0 (length (shapes st))"
  shows "createArc st (r0 # r1 # r2 # rs) =
           Done (newArc (next_id st)
                   (position (shapes st ! randomIndex r0 (length (shapes st))))
                   (position (shapes st ! randomIndex r1 (length (shapes st))))
                   (randomIndex r1 (length (shapes st))) r2,
                 st\<lparr>scene := scene st @ [LineNode (next_id st)], next_id := next_id st + 1\<rparr>,
                 rs)"
proof -
  have "0 < length (shapes st)"
    using assms by (cases "length (shapes st) = 0") simp_all
  then have "randomIndex r0 (length (shapes st)) < length (shapes st)"
    and "randomIndex r1 (length (shapes st)) < length (shapes st)"
    by (simp_all add: randomIndex_less)
  with assms show ?thesis
    by (simp add: createArc_def nextDraw_def Let_def)
qed

lemma initArcs_returns:
  assumes "randomIndex r1 (length (shapes st)) \<noteq> randomIndex r0 (length (shapes st))"
  shows "\<exists>st'. initArcs n st (concat (replicate n [r0, r1, r2]) @ rs) = Done (st', rs)"
  using assms
proof (induction n arbitrary: st)
  case 0
  then show ?case by simp
next
  case (Suc n)
  let ?st1 = "st\<lparr>scene := scene st @ [LineNode (next_id st)], next_id := next_id st + 1\<rparr>"
  let ?a = "newArc (next_id st)
                   (position (shapes st ! randomIndex r0 (length (shapes st))))
                   (position (shapes st ! randomIndex r1 (length (shapes st))))
                   (randomIndex r1 (length (shapes st))) r2"
  have "randomIndex r1 (length (shapes (?st1\<lparr>arcs := arcs ?st1 @ [?a]\<rparr>)))
          \<noteq> randomIndex r0 (length (shapes (?st1\<lparr>arcs := arcs ?st1 @ [?a]\<rparr>)))"
    using Suc.prems by simp
  from Suc.IH [OF this] obtain st' where
    "initArcs n (?st1\<lparr>arcs := arcs ?st1 @ [?a]\<rparr>) (concat (replicate n [r0, r1, r2]) @ rs) = Done (st', rs)"
    by blast
  then show ?case
    using createArc_returns [OF Suc.prems, of r2 "concat (replicate n [r0, r1, r2]) @ rs"]
    by simp
qed

lemma updateArc_quiet:
  assumes "index < length (arcs st)" and "quietArc fails (arcs st ! index)"
  shows "\<exists>a'. updateArc fails index st rs = Done (st\<lparr>arcs := (arcs st)[index := a']\<rparr>, rs)"
proof (cases "active (arcs st ! index)")
  case False
  have "st\<lparr>arcs := (arcs st)[index := arcs st ! index]\<rparr> = st" by simp
  moreover from False assms(1) have "updateArc fails index st rs = Done (st, rs)"
    by (simp add: updateArc_def)
  ultimately have "updateArc fails index st rs =
      Done (st\<lparr>arcs := (arcs st)[index := arcs st ! index]\<rparr>, rs)"
    by simp
  then show ?thesis ..
next
  case True
  let ?a = "(arcs st ! index)\<lparr>progress := progress (arcs st ! index) + speed (arcs st ! index)\<rparr>"
  from True assms(2) have lt: "progress (arcs st ! index) + speed (arcs st ! index) < 1"
    and nf: "\<not> fails ?a"
    by (simp_all add: quietArc_def)
  from nf obtain a' where "recomputeVisible fails ?a = Done a'"
    by (cases "recomputeVisible fails ?a")
       (simp_all add: recomputeVisible_Thrown recomputeVisible_not_Starved)
  with True lt assms(1) have "updateArc fails index st rs =
      Done (st\<lparr>arcs := (arcs st)[index := a']\<rparr>, rs)"
    by (simp add: updateArc_def Let_def)
  then show ?thesis ..
qed

lemma updateArcs_quiet:
  "distinct is \<Longrightarrow> \<forall>i \<in> set is. i < length (arcs st) \<and> quietArc fails (arcs st ! i)
     \<Longrightarrow> \<exists>st'. updateArcs fails is st rs = Done (st', rs)"
proof (induction "is" arbitrary: st)
  case Nil
  then show ?case by simp
next
  case (Cons i "is")
  from Cons.prems(2) have "i < length (arcs st)" and "quietArc fails (arcs st ! i)"
    by simp_all
  from updateArc_quiet [OF this, of rs] obtain a' where
    u: "updateArc fails i st rs = Done (st\<lparr>arcs := (arcs st)[i := a']\<rparr>, rs)"
    by blast
  let ?st1 = "st\<lparr>arcs := (arcs st)[i := a']\<rparr>"
  from Cons.prems have d: "distinct is" and ni: "i \<notin> set is" by simp_all
  have "\<forall>j \<in> set is. j < length (arcs ?st1) \<and> quietArc fails (arcs ?st1 ! j)"
  proof
    fix j assume j: "j \<in> set is"
    with ni have "j \<noteq> i" by auto
    with j Cons.prems(2) show "j < length (arcs ?st1) \<and> quietArc fails (arcs ?st1 ! j)"
      by simp
  qed
  note d this
  from Cons.IH [OF this] u show ?case by simp
qed

lemma animate_quiet:
  assumes "\<forall>a \<in> set (arcs st). quietArc fails a" and "length (arcs st) - 1 \<le> length rs"
  shows "\<exists>st'. animate fails now st rs = Done (st', drop (length (arcs st) - 1) rs)"
proof -
  let ?n = "length (arcs st)"
  let ?st3 = "(requestAnimationFrame st)
      \<lparr>camera_position := \<lparr>vx = cos (now * 0.001 * camera_velocity) * 8,
                            vy = sin (now * 0.001 * camera_velocity) * 3,
                            vz = sin (now * 0.001 * camera_velocity) * 8\<rparr>,
       shapes := rotateShapes (shapes (requestAnimationFrame st))\<rparr>"
  have eq: "animate fails now st rs =
      obind (shuffle (?n - 1) [0 ..< ?n] rs) (\<lambda>(shuffled, rs1).
        obind (updateArcs fails (take (max 1 (nat \<lfloor>real ?n * 0.3\<rfloor>)) shuffled) ?st3 rs1)
          (\<lambda>(st4, rs2). Done (render (updateShimmers st4), rs2)))"
    by (simp add: animate_def Let_def requestAnimationFrame_def)
  from shuffle_returns [OF assms(2)] obtain shuffled where
    sh: "shuffle (?n - 1) [0 ..< ?n] rs = Done (shuffled, drop (?n - 1) rs)"
    by blast
  let ?sel = "take (max 1 (nat \<lfloor>real ?n * 0.3\<rfloor>)) shuffled"
  have a3: "arcs ?st3 = arcs st" by (simp add: requestAnimationFrame_def)
  have "\<forall>i \<in> set ?sel. i < length (arcs ?st3) \<and> quietArc fails (arcs ?st3 ! i)"
    using shuffled_indices(2) [OF sh] assms(1) unfolding a3 by auto
  from updateArcs_quiet [OF shuffled_indices(1) [OF sh] this] obtain st4 where
    "updateArcs fails ?sel ?st3 (drop (?n - 1) rs) = Done (st4, drop (?n - 1) rs)"
    by blast
  with sh show ?thesis unfolding eq by simp
qed

lemma freshArc_quiet: "freshArc a \<Longrightarrow> quietArc neverFails a"
  by (simp add: freshArc_def quietArc_def neverFails_def)

lemma length_hexShapes: "length (hexShapes radius gridSize) = 91"
  by (simp add: hexShapes_def gridSize_def length_hexCoords_5)

lemma arcStep_fresh_quiet:
  assumes "freshArc a" and "arcStep fails a a'"
  shows "quietArc neverFails a'"
proof -
  from assms(2) consider "a' = a"
    | "progress a' = progress a + speed a" "speed a' = speed a"
    | "freshArc a'"
    unfolding arcStep_def by blast
  then show ?thesis
  proof cases
    case 1
    with assms(1) show ?thesis by (simp add: freshArc_quiet)
  next
    case 2
    with assms(1) show ?thesis
      by (simp add: freshArc_def quietArc_def neverFails_def)
  next
    case 3
    then show ?thesis by (rule freshArc_quiet)
  qed
qed

lemma mount_returns:
  "\<exists>st0. mountEffect neverFails (Some []) 800 600 0 mountDraws = Done (Some st0, replicate 6 (rnd_of 0))
     \<and> (\<forall>a \<in> set (arcs st0). quietArc neverFails a)"
proof -
  let ?rest = "replicate 6 (rnd_of 0)"
  have ne: "randomIndex (rnd_of (1 / 2)) (length (shapes (sceneSetup [] 800 600)))
             \<noteq> randomIndex (rnd_of 0) (length (shapes (sceneSetup [] 800 600)))"
    by (simp add: sceneSetup_def length_hexShapes randomIndex_def)
  have md: "mountDraws = concat (replicate 7 [rnd_of 0, rnd_of (1 / 2), rnd_of 0]) @ (?rest @ ?rest)"
    by (simp add: mountDraws_def arcDraws_def flip: replicate_add)
  from initArcs_returns [OF ne, of 7 "rnd_of 0" "?rest @ ?rest"] obtain st1 where
    i: "initArcs maxArcs (sceneSetup [] 800 600) mountDraws = Done (st1, ?rest @ ?rest)"
    unfolding md maxArcs_def by blast
  from initArcs_DoneD [OF i] have len: "length (arcs st1) = 7"
    and fresh: "\<forall>a \<in> set (arcs st1). freshArc a"
    by (simp_all add: sceneSetup_def maxArcs_def)
  let ?st = "addLightsAndStars st1"
  have arcs: "arcs ?st = arcs st1" by (simp add: addLightsAndStars_def)
  have "\<forall>a \<in> set (arcs ?st). quietArc neverFails a"
    using fresh by (simp add: arcs freshArc_quiet)
  moreover have "length (arcs ?st) - 1 \<le> length (?rest @ ?rest)"
    using len by (simp add: arcs)
  ultimately obtain st2 where
    "animate neverFails 0 ?st (?rest @ ?rest) = Done (st2, drop (length (arcs ?st) - 1) (?rest @ ?rest))"
    using animate_quiet by blast
  moreover have "length (arcs ?st) - 1 = 6"
    using len by (simp add: arcs)
  ultimately have a: "animate neverFails 0 ?st (?rest @ ?rest) = Done (st2, ?rest)"
    by simp
  have q: "\<forall>a \<in> set (arcs st2). quietArc neverFails a"
  proof
    fix a assume "a \<in> set (arcs st2)"
    then obtain j where j: "j < length (arcs st2)" and a': "a = arcs st2 ! j"
      by (auto simp: in_set_conv_nth)
    from animate_length [OF a] j have "j < length (arcs st1)" by (simp add: arcs)
    with fresh have "freshArc (arcs ?st ! j)" by (simp add: arcs)
    from arcStep_fresh_quiet [OF this animate_step [OF a, of j]] a'
    show "quietArc neverFails a" by simp
  qed
  from i a have "mountEffect neverFails (Some []) 800 600 0 mountDraws
                   = Done (Some (st2\<lparr>resize_listener := True\<rparr>), ?rest)"
    by (simp add: mountEffect_def)
  with q show ?thesis by simp
qed

lemma mounted_example_steps:
  "\<exists>st0 st1 st. mountEffect neverFails (Some []) 800 600 0 mountDraws = Done (Some st0, replicate 6 (rnd_of 0))
     \<and> run neverFails [Resize 1024 768] st0 (replicate 6 (rnd_of 0)) = Done (st1, replicate 6 (rnd_of 0))
     \<and> fire neverFails (Frame 16) st1 (replicate 6 (rnd_of 0)) = Done (st, [])
     \<and> textMesh st = None"
proof -
  let ?rest = "replicate 6 (rnd_of 0)"
  from mount_returns obtain st0 where
    m: "mountEffect neverFails (Some []) 800 600 0 mountDraws = Done (Some st0, ?rest)"
    and q: "\<forall>a \<in> set (arcs st0). quietArc neverFails a"
    by blast
  note inv = mount_invariants [OF m]
  let ?st1 = "handleResize 1024 768 st0"
  from inv(2) have r: "fire neverFails (Resize 1024 768) st0 ?rest = Done (?st1, ?rest)"
    by (simp add: fire_def hostInvariant_iff)
  from inv(2) obtain f where p: "pending_frames ?st1 = [f]"
    by (auto simp: hostInvariant_iff handleResize_def Let_def)
  let ?st2 = "?st1\<lparr>pending_frames := []\<rparr>"
  have arcs: "arcs ?st2 = arcs st0" by (simp add: handleResize_def Let_def)
  from inv(1) have len: "length (arcs ?st2) = 7"
    by (simp add: arcs poolInvariant_def maxArcs_def)
  from q have "\<forall>a \<in> set (arcs ?st2). quietArc neverFails a"
    by (simp add: arcs)
  moreover have "length (arcs ?st2) - 1 \<le> length ?rest"
    using len by simp
  ultimately obtain st where
    "animate neverFails 16 ?st2 ?rest = Done (st, drop (length (arcs ?st2) - 1) ?rest)"
    using animate_quiet by blast
  then have a: "animate neverFails 16 ?st2 ?rest = Done (st, [])"
    using len by simp
  with p have f: "fire neverFails (Frame 16) ?st1 ?rest = Done (st, [])"
    by (simp add: fire_def)
  from r have run: "run neverFails [Resize 1024 768] st0 ?rest = Done (?st1, ?rest)"
    by simp
  from animate_host [OF a] inv(3) have "textMesh st = None"
    by (simp add: handleResize_def Let_def)
  with m run f show ?thesis by (intro exI conjI)
qed

lemma run_snoc:
  "run fails evs st rs = Done (st1, rs1) \<Longrightarrow> fire fails ev st1 rs1 = Done (st2, rs2)
     \<Longrightarrow> run fails (evs @ [ev]) st rs = Done (st2, rs2)"
proof (induction evs arbitrary: st rs)
  case Nil
  then show ?case by simp
next
  case (Cons e evs)
  from Cons.prems(1) obtain st' rs' where
    f: "fire fails e st rs = Done (st', rs')" and
    r: "run fails evs st' rs' = Done (st1, rs1)"
    by (auto simp: obind_eq_Done)
  from Cons.IH [OF r Cons.prems(2)] f show ?case by simp
qed

lemma mounted_example:
  "\<exists>st0 st. mountEffect neverFails (Some []) 800 600 0 mountDraws = Done (Some st0, replicate 6 (rnd_of 0))
     \<and> run neverFails [Resize 1024 768, Frame 16] st0 (replicate 6 (rnd_of 0)) = Done (st, [])
     \<and> textMesh st = None"
proof -
  from mounted_example_steps obtain st0 st1 st where
    m: "mountEffect neverFails (Some []) 800 600 0 mountDraws = Done (Some st0, replicate 6 (rnd_of 0))"
    and r: "run neverFails [Resize 1024 768] st0 (replicate 6 (rnd_of 0)) = Done (st1, replicate 6 (rnd_of 0))"
    and f: "fire neverFails (Frame 16) st1 (replicate 6 (rnd_of 0)) = Done (st, [])"
    and t: "textMesh st = None"
    by blast
  from run_snoc [OF r f] have "run neverFails [Resize 1024 768, Frame 16] st0 (replicate 6 (rnd_of 0)) = Done (st, [])"
    by simp
  with m t show ?thesis by (intro exI conjI)
qed

section \<open>The arc update\<close>

lemma length_getPoints [simp]: "length (getPoints v0 v1 v2 n) = n + 1"
  by (simp add: getPoints_def)

lemma numPoints_bound:
  assumes "(p::real) < 1"
  shows "nat (max 2 \<lfloor>6 * p\<rfloor>) \<le> 6" and "2 \<le> nat (max 2 \<lfloor>6 * p\<rfloor>)"
proof -
  from assms have "6 * p < 6" by simp
  then have "\<lfloor>6 * p\<rfloor> < 6" by (simp add: floor_less_iff)
  then show "nat (max 2 \<lfloor>6 * p\<rfloor>) \<le> 6" by linarith
  show "2 \<le> nat (max 2 \<lfloor>6 * p\<rfloor>)" by simp
qed

lemma recomputeVisible_Done:
  assumes "\<not> fails a" and "progress a < 1"
  shows "recomputeVisible fails a =
           Done (a\<lparr>line := (line a)
                   \<lparr>geometry := take (nat (max 2 \<lfloor>6 * progress a\<rfloor>))
                                  (getPoints (start a) (control a) (arc_end a) 5),
                    opacity := min 1 (2 * (1 - progress a)) * 0.5\<rparr>\<rparr>)"
proof -
  have "real (length (getPoints (start a) (control a) (arc_end a) 5)) * progress a = 6 * progress a"
    by simp
  moreover have "2 \<le> length (take (nat (max 2 \<lfloor>6 * progress a\<rfloor>))
                                  (getPoints (start a) (control a) (arc_end a) 5))"
    using numPoints_bound [OF assms(2)] by simp
  ultimately show ?thesis
    using assms(1) unfolding recomputeVisible_def Let_def by simp
qed

text \<open>
  C1, as the code has it, in exact real arithmetic. An active arc whose progress stays below
  1 after the increment, and whose recomputation does not fail, gets as geometry the first
  \<open>max(2, floor(6 * progress))\<close> of the six points that \<open>getPoints(5)\<close> samples, exactly that
  many, and its line the opacity \<open>min(1, 2 * (1 - progress)) * 0.5\<close>, where \<open>progress\<close> is the
  value after the increment and the sum, the product and the floor are those of the reals.
  The rounding of binary64 is not part of the statement: where the rounded product
  \<open>6 * progress\<close> is an integer that the exact product stays below (as at the stored progress
  \<open>0.6666666666666666\<close>, whose product rounds to \<open>4.0\<close>), the code keeps one point more than
  the count stated here.
\<close>

theorem visible_prefix_and_opacity:
  assumes "index < length (arcs st)"
    and "active (arcs st ! index)"
    and "progress (arcs st ! index) + speed (arcs st ! index) < 1"
    and "\<not> fails ((arcs st ! index)\<lparr>progress := progress (arcs st ! index) + speed (arcs st ! index)\<rparr>)"
  shows "let a = arcs st ! index; p = progress a + speed a
         in \<exists>a'. updateArc fails index st rs = Done (st\<lparr>arcs := (arcs st)[index := a']\<rparr>, rs)
              \<and> progress a' = p
              \<and> geometry (line a') =
                  take (nat (max 2 \<lfloor>6 * p\<rfloor>)) (getPoints (start a) (control a) (arc_end a) 5)
              \<and> length (getPoints (start a) (control a) (arc_end a) 5) = 6
              \<and> length (geometry (line a')) = nat (max 2 \<lfloor>6 * p\<rfloor>)
              \<and> opacity (line a') = min 1 (2 * (1 - p)) * 0.5"
proof -
  let ?a = "arcs st ! index"
  let ?p = "progress ?a + speed ?a"
  let ?a1 = "?a\<lparr>progress := ?p\<rparr>"
  let ?a' = "?a1\<lparr>line := (line ?a1)
                   \<lparr>geometry := take (nat (max 2 \<lfloor>6 * progress ?a1\<rfloor>))
                                  (getPoints (start ?a1) (control ?a1) (arc_end ?a1) 5),
                    opacity := min 1 (2 * (1 - progress ?a1)) * 0.5\<rparr>\<rparr>"
  from assms(3,4) have r: "recomputeVisible fails ?a1 = Done ?a'"
    by (intro recomputeVisible_Done) simp_all
  have u: "updateArc fails index st rs = Done (st\<lparr>arcs := (arcs st)[index := ?a']\<rparr>, rs)"
    using assms(1-3) unfolding updateArc_def Let_def r by simp
  have "length (geometry (line ?a')) = nat (max 2 \<lfloor>6 * ?p\<rfloor>)"
    using numPoints_bound(1) [OF assms(3)] by simp
  with u show ?thesis
    unfolding Let_def by (intro exI [of _ ?a']) simp
qed

lemma halfwayArc_sel:
  "active halfwayArc" "progress halfwayArc = 19 / 40" "speed halfwayArc = 1 / 40"
  "line_id (line halfwayArc) = 0"
  by (simp_all add: halfwayArc_def)

lemma halfwayState_arcs: "arcs halfwayState = [halfwayArc]"
  by (simp add: halfwayState_def)

lemma halfway_update:
  "updateArc neverFails 0 halfwayState [] = Done (halfwayState\<lparr>arcs := [halfwayArcAfter]\<rparr>, [])"
proof -
  have "recomputeVisible neverFails (halfwayArc\<lparr>progress := 1 / 2\<rparr>) = Done halfwayArcAfter"
    by (subst recomputeVisible_Done) (simp_all add: neverFails_def halfwayArcAfter_def)
  then show ?thesis
    by (simp add: updateArc_def Let_def halfwayState_arcs halfwayArc_sel)
qed

text \<open>The arc at progress \<open>19/40\<close> with speed \<open>1/40\<close>: three points and opacity \<open>1/2\<close>.\<close>

theorem visible_prefix_and_opacity_witness:
  "0 < length (arcs halfwayState) \<and> active (arcs halfwayState ! 0)
   \<and> progress (arcs halfwayState ! 0) + speed (arcs halfwayState ! 0) = 1 / 2
   \<and> (\<exists>a'. updateArc neverFails 0 halfwayState [] = Done (halfwayState\<lparr>arcs := [a']\<rparr>, [])
          \<and> length (geometry (line a')) = 3 \<and> opacity (line a') = 1 / 2)"
proof -
  have h1: "0 < length (arcs halfwayState)" and h2: "active (arcs halfwayState ! 0)"
    and h3: "progress (arcs halfwayState ! 0) + speed (arcs halfwayState ! 0) < 1"
    and h4: "\<not> neverFails ((arcs halfwayState ! 0)\<lparr>progress :=
                progress (arcs halfwayState ! 0) + speed (arcs halfwayState ! 0)\<rparr>)"
    by (simp_all add: halfwayState_arcs halfwayArc_sel neverFails_def)
  from visible_prefix_and_opacity [of 0 halfwayState neverFails "[]", OF h1 h2 h3 h4]
  obtain a' where "updateArc neverFails 0 halfwayState [] = Done (halfwayState\<lparr>arcs := [a']\<rparr>, [])"
    and "length (geometry (line a')) = 3" and "opacity (line a') = 1 / 2"
    by (auto simp: Let_def halfwayState_arcs halfwayArc_sel)
  with h1 h2 show ?thesis
    by (auto simp: halfwayState_arcs halfwayArc_sel)
qed

text \<open>At progress \<open>1/2\<close> the geometry has three points, while \<open>max(2, floor(5 * 1/2))\<close> is two.\<close>

theorem five_point_prefix_counterexample:
  "updateArc neverFails 0 halfwayState [] = Done (halfwayState\<lparr>arcs := [halfwayArcAfter]\<rparr>, [])
   \<and> active (arcs halfwayState ! 0)
   \<and> progress halfwayArcAfter = 1 / 2
   \<and> length (geometry (line halfwayArcAfter)) = 3
   \<and> max 2 \<lfloor>5 * progress halfwayArcAfter\<rfloor> = 2"
  by (simp add: halfway_update halfwayState_arcs halfwayArc_sel)
     (simp add: halfwayArcAfter_def)

section \<open>Failures of the recomputation\<close>

lemma updateArc_failed:
  assumes "index < length (arcs st)"
    and "active (arcs st ! index)"
    and "progress (arcs st ! index) + speed (arcs st ! index) < 1"
    and "fails ((arcs st ! index)\<lparr>progress := progress (arcs st ! index) + speed (arcs st ! index)\<rparr>)"
  shows "updateArc fails index st rs =
           replaceArc index
             ((arcs st ! index)\<lparr>progress := progress (arcs st ! index) + speed (arcs st ! index)\<rparr>)
             (st\<lparr>arcs := (arcs st)[index :=
                  (arcs st ! index)\<lparr>progress := progress (arcs st ! index) + speed (arcs st ! index)\<rparr>]\<rparr>)
             rs"
proof -
  let ?a = "(arcs st ! index)\<lparr>progress := progress (arcs st ! index) + speed (arcs st ! index)\<rparr>"
  from assms(4) have "recomputeVisible fails ?a = Thrown GeometryError"
    by (simp add: recomputeVisible_Thrown)
  with assms(1-3) show ?thesis
    by (simp add: updateArc_def Let_def)
qed

lemma replaceArc_returns:
  assumes "randomIndex r1 (length (shapes st)) \<noteq> randomIndex r0 (length (shapes st))"
  shows "\<exists>st'. replaceArc index a st (r0 # r1 # r2 # rs) = Done (st', rs)"
proof -
  have "randomIndex r1 (length (shapes (disposeArc a st)))
          \<noteq> randomIndex r0 (length (shapes (disposeArc a st)))"
    using assms by (simp add: disposeArc_def)
  from createArc_returns [OF this, of r2 rs] show ?thesis
    by (simp add: replaceArc_def)
qed

text \<open>
  C5. The frame callback never throws, whatever fails in the recomputation. When the
  recomputation of an active arc below 1 fails, the update of that slot throws nothing: it
  returns as soon as \<open>createArc\<close> has its draws, and then the geometry and the material of
  the old line are released, the old line is out of the scene and the new one in it, and
  the slot holds a fresh arc, all other slots being as before.
\<close>

theorem failed_recompute_is_caught:
  assumes "index < length (arcs st)"
    and "active (arcs st ! index)"
    and "progress (arcs st ! index) + speed (arcs st ! index) < 1"
    and "fails ((arcs st ! index)\<lparr>progress := progress (arcs st ! index) + speed (arcs st ! index)\<rparr>)"
  shows "animate fails now st0 rs0 \<noteq> Thrown x
     \<and> updateArc fails index st rs \<noteq> Thrown x
     \<and> (randomIndex r1 (length (shapes st)) \<noteq> randomIndex r0 (length (shapes st))
          \<longrightarrow> (\<exists>st'. updateArc fails index st (r0 # r1 # r2 # rs) = Done (st', rs)))
     \<and> (\<forall>st' rs'. updateArc fails index st rs = Done (st', rs')
          \<longrightarrow> set [LineGeometry (line_id (line (arcs st ! index))),
                    LineMaterial (line_id (line (arcs st ! index)))] \<subseteq> set (released st')
               \<and> scene st' = sceneRemove (LineNode (line_id (line (arcs st ! index)))) (scene st)
                               @ [LineNode (next_id st)]
               \<and> length (arcs st') = length (arcs st)
               \<and> freshArc (arcs st' ! index)
               \<and> line_id (line (arcs st' ! index)) = next_id st
               \<and> (\<forall>j. j \<noteq> index \<longrightarrow> arcs st' ! j = arcs st ! j))"
proof -
  let ?a = "(arcs st ! index)\<lparr>progress := progress (arcs st ! index) + speed (arcs st ! index)\<rparr>"
  let ?st1 = "st\<lparr>arcs := (arcs st)[index := ?a]\<rparr>"
  have eq: "updateArc fails index st rs = replaceArc index ?a ?st1 rs" for rs
    by (rule updateArc_failed [where fails = fails, OF assms])
  have 1: "animate fails now st0 rs0 \<noteq> Thrown x"
    by (rule animate_not_Thrown)
  have 2: "updateArc fails index st rs \<noteq> Thrown x"
    unfolding eq by (rule replaceArc_not_Thrown)
  have 3: "\<exists>st'. updateArc fails index st (r0 # r1 # r2 # rs) = Done (st', rs)"
    if "randomIndex r1 (length (shapes st)) \<noteq> randomIndex r0 (length (shapes st))"
  proof -
    from that have "randomIndex r1 (length (shapes ?st1)) \<noteq> randomIndex r0 (length (shapes ?st1))"
      by simp
    from replaceArc_returns [OF this] show ?thesis
      unfolding eq .
  qed
  have 4: "set [LineGeometry (line_id (line (arcs st ! index))),
                    LineMaterial (line_id (line (arcs st ! index)))] \<subseteq> set (released st')
               \<and> scene st' = sceneRemove (LineNode (line_id (line (arcs st ! index)))) (scene st)
                               @ [LineNode (next_id st)]
               \<and> length (arcs st') = length (arcs st)
               \<and> freshArc (arcs st' ! index)
               \<and> line_id (line (arcs st' ! index)) = next_id st
               \<and> (\<forall>j. j \<noteq> index \<longrightarrow> arcs st' ! j = arcs st ! j)"
    if "updateArc fails index st rs = Done (st', rs')" for st' rs'
  proof -
    from that have "replaceArc index ?a ?st1 rs = Done (st', rs')"
      unfolding eq .
    from replaceArc_DoneD [OF this] obtain s e t r where
      "st' = ?st1\<lparr>arcs := (arcs ?st1)[index := newArc (next_id ?st1) s e t r],
                    scene := sceneRemove (LineNode (line_id (line ?a))) (scene ?st1) @ [LineNode (next_id ?st1)],
                    released := released ?st1 @ [LineGeometry (line_id (line ?a)), LineMaterial (line_id (line ?a))],
                    next_id := next_id ?st1 + 1\<rparr>"
      by blast
    with assms(1) show ?thesis
      by (simp add: newArc_fresh)
  qed
  have c3: "randomIndex r1 (length (shapes st)) \<noteq> randomIndex r0 (length (shapes st))
          \<longrightarrow> (\<exists>st'. updateArc fails index st (r0 # r1 # r2 # rs) = Done (st', rs))"
    using 3 by (intro impI)
  have c4: "\<forall>st' rs'. updateArc fails index st rs = Done (st', rs')
          \<longrightarrow> set [LineGeometry (line_id (line (arcs st ! index))),
                    LineMaterial (line_id (line (arcs st ! index)))] \<subseteq> set (released st')
               \<and> scene st' = sceneRemove (LineNode (line_id (line (arcs st ! index)))) (scene st)
                               @ [LineNode (next_id st)]
               \<and> length (arcs st') = length (arcs st)
               \<and> freshArc (arcs st' ! index)
               \<and> line_id (line (arcs st' ! index)) = next_id st
               \<and> (\<forall>j. j \<noteq> index \<longrightarrow> arcs st' ! j = arcs st ! j)"
    using 4 by (intro allI impI)
  from 1 2 c3 c4 show ?thesis by (intro conjI)
qed

text \<open>The arc at progress \<open>19/40\<close> again, with a recomputation that always fails.\<close>

theorem failed_recompute_is_caught_witness:
  "0 < length (arcs halfwayState) \<and> active (arcs halfwayState ! 0)
   \<and> progress (arcs halfwayState ! 0) + speed (arcs halfwayState ! 0) < 1
   \<and> alwaysFails ((arcs halfwayState ! 0)\<lparr>progress :=
        progress (arcs halfwayState ! 0) + speed (arcs halfwayState ! 0)\<rparr>)
   \<and> (\<exists>st'. updateArc alwaysFails 0 halfwayState [rnd_of 0, rnd_of (1 / 2), rnd_of 0] = Done (st', [])
          \<and> LineGeometry 0 \<in> set (released st') \<and> LineMaterial 0 \<in> set (released st')
          \<and> scene st' = [ShapeNode 0, ShapeNode 1, LineNode 1]
          \<and> length (arcs st') = 1 \<and> freshArc (arcs st' ! 0))"
proof -
  have h1: "0 < length (arcs halfwayState)" and h2: "active (arcs halfwayState ! 0)"
    and h3: "progress (arcs halfwayState ! 0) + speed (arcs halfwayState ! 0) < 1"
    and h4: "alwaysFails ((arcs halfwayState ! 0)\<lparr>progress :=
                progress (arcs halfwayState ! 0) + speed (arcs halfwayState ! 0)\<rparr>)"
    by (simp_all add: halfwayState_arcs halfwayArc_sel alwaysFails_def)
  have ne: "randomIndex (rnd_of (1 / 2)) (length (shapes halfwayState))
              \<noteq> randomIndex (rnd_of 0) (length (shapes halfwayState))"
    by (simp add: halfwayState_def twoShapes_def randomIndex_def)
  note t = failed_recompute_is_caught [where fails = alwaysFails and index = 0 and st = halfwayState,
             OF h1 h2 h3 h4]
  from t [where ?r1.0 = "rnd_of (1 / 2)" and ?r0.0 = "rnd_of 0" and ?r2.0 = "rnd_of 0" and rs = "[]"] ne
  obtain st' where
    u: "updateArc alwaysFails 0 halfwayState [rnd_of 0, rnd_of (1 / 2), rnd_of 0] = Done (st', [])"
    by blast
  from t [where rs = "[rnd_of 0, rnd_of (1 / 2), rnd_of 0]"] u
  have "set [LineGeometry (line_id (line (arcs halfwayState ! 0))),
             LineMaterial (line_id (line (arcs halfwayState ! 0)))] \<subseteq> set (released st')
        \<and> scene st' = sceneRemove (LineNode (line_id (line (arcs halfwayState ! 0)))) (scene halfwayState)
                               @ [LineNode (next_id halfwayState)]
        \<and> length (arcs st') = length (arcs halfwayState)
        \<and> freshArc (arcs st' ! 0)"
    by blast
  then have "LineGeometry 0 \<in> set (released st') \<and> LineMaterial 0 \<in> set (released st')
          \<and> scene st' = [ShapeNode 0, ShapeNode 1, LineNode 1]
          \<and> length (arcs st') = 1 \<and> freshArc (arcs st' ! 0)"
    by (simp add: halfwayState_arcs halfwayArc_sel)
       (simp add: halfwayState_def twoShapes_def sceneRemove_def)
  with u h1 h2 h3 h4 show ?thesis by (intro conjI exI [of _ st']) simp_all
qed

section \<open>Cleanup\<close>

lemma fold_disposeArc:
  "fold disposeArc as st =
     st\<lparr>released := released st @
            concat (map (\<lambda>a. [LineGeometry (line_id (line a)), LineMaterial (line_id (line a))]) as),
        scene := fold (\<lambda>a. sceneRemove (LineNode (line_id (line a)))) as (scene st)\<rparr>"
proof (induction as arbitrary: st)
  case Nil
  show ?case by simp
next
  case (Cons a as)
  show ?case
    by (simp add: Cons.IH) (simp add: disposeArc_def)
qed

lemma fold_release:
  "fold (\<lambda>s. release xs) ms st = st\<lparr>released := released st @ concat (replicate (length ms) xs)\<rparr>"
proof (induction ms arbitrary: st)
  case Nil
  show ?case by simp
next
  case (Cons m ms)
  show ?case
    by (simp add: Cons.IH) (simp add: release_def)
qed

lemma cleanup_mounted:
  assumes "pending_frames st = [f]" and "animationFrameId st = Some f"
    and "mountRef_current st = None \<or> (\<exists>cs. mountRef_current st = Some cs \<and> Canvas \<in> set cs)"
    and "textMesh st = None"
  shows "\<exists>st'. cleanup st = Done st'
     \<and> pending_frames st' = []
     \<and> resize_listener st' = False
     \<and> camera_text st' = camera_text st
     \<and> released st' = released st
          @ concat (map (\<lambda>a. [LineGeometry (line_id (line a)), LineMaterial (line_id (line a))]) (arcs st))
          @ concat (replicate (length (shapes st)) [ShapeGeometry, ShapeMaterial])
          @ [StarsGeometry, StarsMaterial, Renderer]"
proof (cases "mountRef_current st")
  case None
  with assms(1,2,4) show ?thesis
    by (simp add: cleanup_def Let_def fold_disposeArc fold_release release_def
          cancelAnimationFrame_def)
next
  case (Some cs)
  with assms(3) have "Canvas \<in> set cs" by simp
  with Some assms(1,2,4) show ?thesis
    by (simp add: cleanup_def Let_def fold_disposeArc fold_release release_def removeChild_def
          cancelAnimationFrame_def)
qed

text \<open>
  C9. Cleanup in any state reached after mounting in which the font has not loaded
  (\<open>textMesh\<close> is null) returns without throwing. It releases the lines of the arcs, the
  shape geometry and material, the stars and the renderer, and nothing of the text; it
  cancels the one pending frame request, so that no frame callback runs afterwards, and
  removes the resize handler. The same cleanup returns as well when \<open>mountRef.current\<close> has
  been set to null before it runs.
\<close>

theorem cleanup_before_font_load:
  assumes "mountEffect fails (Some cs) w h now rs = Done (Some st0, rs0)"
    and "run fails evs st0 rs0 = Done (st, rs1)"
    and "textMesh st = None"
  shows "\<exists>st'. cleanup st = Done st'
     \<and> pending_frames st' = []
     \<and> (\<forall>t rs2. fire fails (Frame t) st' rs2 = Done (st', rs2))
     \<and> resize_listener st' = False
     \<and> camera_text st' = camera_text st
     \<and> released st' = released st
          @ concat (map (\<lambda>a. [LineGeometry (line_id (line a)), LineMaterial (line_id (line a))]) (arcs st))
          @ concat (replicate (length (shapes st)) [ShapeGeometry, ShapeMaterial])
          @ [StarsGeometry, StarsMaterial, Renderer]
     \<and> (\<exists>st''. cleanup (st\<lparr>mountRef_current := None\<rparr>) = Done st'' \<and> pending_frames st'' = [])"
proof -
  from run_invariants [OF assms(2) mount_invariants(1,2) [OF assms(1)]]
  have "hostInvariant st" by simp
  then obtain f cs' where
    pf: "pending_frames st = [f]" and af: "animationFrameId st = Some f"
    and mr: "mountRef_current st = Some cs'" and cv: "Canvas \<in> set cs'"
    by (auto simp: hostInvariant_iff)
  from mr cv have "mountRef_current st = None \<or> (\<exists>cs. mountRef_current st = Some cs \<and> Canvas \<in> set cs)"
    by simp
  from cleanup_mounted [OF pf af this assms(3)] obtain st' where
    c: "cleanup st = Done st'" and p: "pending_frames st' = []"
    and r: "resize_listener st' = False" and t: "camera_text st' = camera_text st"
    and l: "released st' = released st
          @ concat (map (\<lambda>a. [LineGeometry (line_id (line a)), LineMaterial (line_id (line a))]) (arcs st))
          @ concat (replicate (length (shapes st)) [ShapeGeometry, ShapeMaterial])
          @ [StarsGeometry, StarsMaterial, Renderer]"
    by blast
  from p have fr: "\<forall>t rs2. fire fails (Frame t) st' rs2 = Done (st', rs2)"
    by (simp add: fire_def)
  from cleanup_mounted [of "st\<lparr>mountRef_current := None\<rparr>" f] pf af assms(3)
  obtain st'' where "cleanup (st\<lparr>mountRef_current := None\<rparr>) = Done st''" and "pending_frames st'' = []"
    by auto
  then have nn: "\<exists>st''. cleanup (st\<lparr>mountRef_current := None\<rparr>) = Done st'' \<and> pending_frames st'' = []"
    by (intro exI [of _ st''] conjI)
  show ?thesis
    by (rule exI [of _ st']) (simp add: c p fr r t l nn)
qed

text \<open>The example run, unmounted after its frame.\<close>

theorem cleanup_before_font_load_witness:
  "\<exists>st0 st st'. mountEffect neverFails (Some []) 800 600 0 mountDraws = Done (Some st0, replicate 6 (rnd_of 0))
     \<and> run neverFails [Resize 1024 768, Frame 16] st0 (replicate 6 (rnd_of 0)) = Done (st, [])
     \<and> textMesh st = None
     \<and> cleanup st = Done st'
     \<and> pending_frames st' = []
     \<and> fire neverFails (Frame 32) st' [] = Done (st', [])"
proof -
  from mounted_example obtain st0 st where
    m: "mountEffect neverFails (Some []) 800 600 0 mountDraws = Done (Some st0, replicate 6 (rnd_of 0))"
    and r: "run neverFails [Resize 1024 768, Frame 16] st0 (replicate 6 (rnd_of 0)) = Done (st, [])"
    and t: "textMesh st = None"
    by blast
  from cleanup_before_font_load [OF m r t] obtain st' where
    "cleanup st = Done st'" and "pending_frames st' = []"
    and "\<forall>t rs2. fire neverFails (Frame t) st' rs2 = Done (st', rs2)"
    by blast
  with m r t show ?thesis by (intro exI [of _ st0] exI [of _ st] exI [of _ st'] conjI) simp_all
qed

section \<open>Shimmer animations\<close>

lemma material_overwrite [simp]:
  "restoreMaterial a (shimmerMaterial b m) = restoreMaterial a m"
  "restoreMaterial a (restoreMaterial b m) = restoreMaterial a m"
  "shimmerMaterial a (shimmerMaterial b m) = shimmerMaterial a m"
  "shimmerMaterial a (restoreMaterial b m) = shimmerMaterial a m"
  by (simp_all add: restoreMaterial_def shimmerMaterial_def Let_def)

lemma shimmerLoop_Suc:
  "shimmerLoop (Suc i) as m =
     (if running (advance 0.05 (as ! i))
      then shimmerLoop i (as[i := advance 0.05 (as ! i)]) (shimmerMaterial (advance 0.05 (as ! i)) m)
      else shimmerLoop i (take i as @ drop (Suc i) as) (restoreMaterial (advance 0.05 (as ! i)) m))"
  by (simp add: Let_def advance_def running_def not_less)

declare shimmerLoop.simps(2) [simp del]

lemma shimmerLoop_list:
  "i \<le> length as \<Longrightarrow>
     fst (shimmerLoop i as m) = filter running (map (advance 0.05) (take i as)) @ drop i as"
proof (induction i arbitrary: as m)
  case 0
  then show ?case by simp
next
  case (Suc i)
  then have i: "i < length as" by simp
  let ?b = "advance 0.05 (as ! i)"
  show ?case
  proof (cases "running ?b")
    case True
    from i have "i \<le> length (as[i := ?b])" by simp
    from Suc.IH [OF this, of "shimmerMaterial ?b m"] True i show ?thesis
      by (simp add: shimmerLoop_Suc)
         (simp add: take_Suc_conv_app_nth drop_update_cancel upd_conv_take_nth_drop
            Cons_nth_drop_Suc)
  next
    case False
    from i have "i \<le> length (take i as @ drop (Suc i) as)" by simp
    from Suc.IH [OF this, of "restoreMaterial ?b m"] False i show ?thesis
      by (simp add: shimmerLoop_Suc)
         (simp add: take_Suc_conv_app_nth)
  qed
qed

lemma shimmerLoop_material:
  "0 < i \<Longrightarrow> i \<le> length as \<Longrightarrow>
     snd (shimmerLoop i as m) =
       (if running (advance 0.05 (as ! 0)) then shimmerMaterial (advance 0.05 (as ! 0)) m
        else restoreMaterial (advance 0.05 (as ! 0)) m)"
proof (induction i arbitrary: as m)
  case 0
  then show ?case by simp
next
  case (Suc i)
  then have i: "i < length as" by simp
  let ?b = "advance 0.05 (as ! i)"
  show ?case
  proof (cases "i = 0")
    case True
    then show ?thesis
      by (simp add: shimmerLoop_Suc)
  next
    case False
    then have pos: "0 < i" by simp
    show ?thesis
    proof (cases "running ?b")
      case True
      from i have "i \<le> length (as[i := ?b])" by simp
      from Suc.IH [OF pos this, of "shimmerMaterial ?b m"] True pos show ?thesis
        by (simp add: shimmerLoop_Suc)
    next
      case False
      from i have "i \<le> length (take i as @ drop (Suc i) as)" by simp
      from Suc.IH [OF pos this, of "restoreMaterial ?b m"] False pos i show ?thesis
        by (simp add: shimmerLoop_Suc nth_append)
    qed
  qed
qed

lemma updateShimmers_list:
  "shimmerAnimations (updateShimmers st) =
     filter running (map (advance 0.05) (shimmerAnimations st))"
proof -
  obtain as' m' where
    sl: "shimmerLoop (length (shimmerAnimations st)) (shimmerAnimations st) (material st) = (as', m')"
    by (cases "shimmerLoop (length (shimmerAnimations st)) (shimmerAnimations st) (material st)")
  from shimmerLoop_list [of "length (shimmerAnimations st)" "shimmerAnimations st" "material st"]
  have "as' = filter running (map (advance 0.05) (shimmerAnimations st))"
    unfolding sl by simp
  then show ?thesis
    unfolding updateShimmers_def sl by simp
qed

lemma updateShimmers_material:
  "material (updateShimmers st) =
     (case shimmerAnimations st of
        [] \<Rightarrow> material st
      | a # as \<Rightarrow>
          if running (advance 0.05 a) then shimmerMaterial (advance 0.05 a) (material st)
          else restoreMaterial (advance 0.05 a) (material st))"
proof (cases "shimmerAnimations st")
  case Nil
  then show ?thesis by (simp add: updateShimmers_def)
next
  case (Cons a as)
  obtain as' m' where
    sl: "shimmerLoop (length (shimmerAnimations st)) (shimmerAnimations st) (material st) = (as', m')"
    by (cases "shimmerLoop (length (shimmerAnimations st)) (shimmerAnimations st) (material st)")
  have "0 < length (shimmerAnimations st)" using Cons by simp
  from shimmerLoop_material [OF this order_refl, of "material st"]
  have "m' = (if running (advance 0.05 a) then shimmerMaterial (advance 0.05 a) (material st)
          else restoreMaterial (advance 0.05 a) (material st))"
    unfolding sl using Cons by simp
  then show ?thesis
    unfolding updateShimmers_def sl using Cons by simp
qed

lemma passes_list:
  "shimmerAnimations ((updateShimmers ^^ Suc n) st) =
     filter running (map (advance (real (Suc n) * 0.05)) (shimmerAnimations st))"
proof (induction n)
  case 0
  show ?case by (simp add: updateShimmers_list)
next
  case (Suc n)
  have adv: "advance 0.05 (advance (real (Suc n) * 0.05) a) = advance (real (Suc (Suc n)) * 0.05) a" for a
    by (simp add: advance_def algebra_simps)
  have run: "running (advance 0.05 a) \<Longrightarrow> running a" for a
    by (simp add: running_def advance_def)
  have "shimmerAnimations ((updateShimmers ^^ Suc (Suc n)) st) =
      filter running (map (advance 0.05)
        (filter running (map (advance (real (Suc n) * 0.05)) (shimmerAnimations st))))"
    using Suc.IH by (simp add: updateShimmers_list)
  also have "\<dots> = map (advance 0.05) (filter (\<lambda>a. running (advance 0.05 a) \<and> running a)
        (map (advance (real (Suc n) * 0.05)) (shimmerAnimations st)))"
    by (simp add: filter_map comp_def conj_commute)
  also have "(\<lambda>a. running (advance 0.05 a) \<and> running a) = (\<lambda>a. running (advance 0.05 a))"
    using run by auto
  also have "map (advance 0.05) (filter (\<lambda>a. running (advance 0.05 a))
        (map (advance (real (Suc n) * 0.05)) (shimmerAnimations st))) =
      filter running (map (advance (real (Suc (Suc n)) * 0.05)) (shimmerAnimations st))"
    unfolding filter_map comp_def map_map adv ..
  finally show ?case .
qed

lemma passes_empty:
  "shimmerAnimations st = [] \<Longrightarrow>
     shimmerAnimations ((updateShimmers ^^ n) st) = [] \<and> material ((updateShimmers ^^ n) st) = material st"
proof (induction n)
  case 0
  then show ?case by simp
next
  case (Suc n)
  then show ?case
    by (simp add: updateShimmers_list updateShimmers_material)
qed

lemma passes_roughness:
  "roughness (material ((updateShimmers ^^ n) st)) = roughness (material st)"
proof (induction n)
  case 0
  show ?case by simp
next
  case (Suc n)
  then show ?case
    by (simp add: updateShimmers_material restoreMaterial_def shimmerMaterial_def Let_def
          split: list.splits)
qed

lemma passes_started:
  "shimmerAnimations ((updateShimmers ^^ n) (startShimmerEffect sh st)) =
     shimmerAnimations ((updateShimmers ^^ n) st) @
       (if n < 20
        then [\<lparr>shape = sh, anim_progress = real n * 0.05,
               originalColor = mat_color (material st),
               originalMetalness = metalness (material st),
               originalEmissive = emissive (material st)\<rparr>]
        else [])"
proof (cases n)
  case 0
  then show ?thesis by (simp add: startShimmerEffect_def)
next
  case (Suc k)
  have "real (Suc k) * 0.05 < 1 \<longleftrightarrow> Suc k < 20"
    by (simp add: field_simps)
  then show ?thesis
    unfolding Suc passes_list
    by (simp add: startShimmerEffect_def running_def advance_def)
qed

text \<open>
  C10. A record started at progress 0 is the last of the list after each of the first 19
  update passes, at progress \<open>n * 0.05\<close> after \<open>n\<close> of them, and is gone after the 20th and
  every later one, whatever other records the list holds.
\<close>

theorem shimmer_ends_after_20_passes:
  "(n < 20 \<longrightarrow>
      shimmerAnimations ((updateShimmers ^^ n) (startShimmerEffect sh st)) =
        shimmerAnimations ((updateShimmers ^^ n) st) @
          [\<lparr>shape = sh, anim_progress = real n * 0.05,
            originalColor = mat_color (material st),
            originalMetalness = metalness (material st),
            originalEmissive = emissive (material st)\<rparr>])
   \<and> (20 \<le> n \<longrightarrow>
      shimmerAnimations ((updateShimmers ^^ n) (startShimmerEffect sh st)) =
        shimmerAnimations ((updateShimmers ^^ n) st))"
  by (simp add: passes_started)

text \<open>A shimmer on shape 1 of the two-shape scene: present after 19 passes, gone after 20.\<close>

theorem shimmer_ends_after_20_passes_witness:
  "shimmerAnimations ((updateShimmers ^^ 19) (startShimmerEffect 1 twoShapes)) =
     [\<lparr>shape = 1, anim_progress = 19 / 20,
       originalColor = mat_color initialMaterial,
       originalMetalness = metalness initialMaterial,
       originalEmissive = emissive initialMaterial\<rparr>]
   \<and> shimmerAnimations ((updateShimmers ^^ 20) (startShimmerEffect 1 twoShapes)) = []"
proof -
  have e: "shimmerAnimations twoShapes = []" and m: "material twoShapes = initialMaterial"
    by (simp_all add: twoShapes_def sceneSetup_def)
  from shimmer_ends_after_20_passes [of 19 1 twoShapes] shimmer_ends_after_20_passes [of 20 1 twoShapes]
    passes_empty [OF e, of 19] passes_empty [OF e, of 20] m
  show ?thesis by simp
qed

lemma round_trip_20:
  assumes "shimmerAnimations st = []"
  shows "material ((updateShimmers ^^ 20) (startShimmerEffect sh st)) = material st"
    and "shimmerAnimations ((updateShimmers ^^ 20) (startShimmerEffect sh st)) = []"
proof -
  let ?s1 = "startShimmerEffect sh st"
  let ?s19 = "(updateShimmers ^^ 19) ?s1"
  let ?new = "\<lparr>shape = sh, anim_progress = real 19 * 0.05,
               originalColor = mat_color (material st),
               originalMetalness = metalness (material st),
               originalEmissive = emissive (material st)\<rparr>"
  have "(20::nat) = Suc 19" by simp
  then have step: "(updateShimmers ^^ 20) ?s1 = updateShimmers ?s19"
    by (simp only: funpow.simps o_apply)
  have l19: "shimmerAnimations ?s19 = [?new]"
    using passes_started [of 19 sh st] passes_empty [OF assms, of 19] by simp
  have r19: "roughness (material ?s19) = roughness (material st)"
    using passes_roughness [of 19 ?s1] by (simp add: startShimmerEffect_def)
  have nr: "\<not> running (advance 0.05 ?new)"
    by (simp add: running_def advance_def)
  have "material (updateShimmers ?s19) = restoreMaterial (advance 0.05 ?new) (material ?s19)"
    using nr by (simp add: updateShimmers_material l19)
  also have "\<dots> = material st"
    using r19 by (simp add: restoreMaterial_def advance_def)
  finally show "material ((updateShimmers ^^ 20) ?s1) = material st"
    unfolding step .
  show "shimmerAnimations ((updateShimmers ^^ 20) ?s1) = []"
    using passes_started [of 20 sh st] passes_empty [OF assms, of 20] by simp
qed

text \<open>
  C3. In the update loop, the iteration at which a record's progress reaches 1 takes the
  record out of the list and hands on a material whose colour, metalness and emissive are
  the record's snapshot. What the same pass writes afterwards for records of lower index,
  which share the material, is the other mutation the claim sets aside: for the first
  record of the list nothing follows, so after the pass the material has the snapshot
  values. Round trip: a shimmer started on a list with no other record gives back, after
  20 passes and any number more, exactly the material it started from and an empty list.
\<close>

theorem shimmer_restores_snapshot:
  "(i < length as \<longrightarrow> 1 \<le> anim_progress (as ! i) + 0.05 \<longrightarrow>
      (\<exists>m'. shimmerLoop (Suc i) as m = shimmerLoop i (take i as @ drop (Suc i) as) m'
         \<and> mat_color m' = originalColor (as ! i)
         \<and> metalness m' = originalMetalness (as ! i)
         \<and> emissive m' = originalEmissive (as ! i)))
   \<and> (shimmerAnimations st = anim # rest \<longrightarrow> 1 \<le> anim_progress anim + 0.05 \<longrightarrow>
        mat_color (material (updateShimmers st)) = originalColor anim
      \<and> metalness (material (updateShimmers st)) = originalMetalness anim
      \<and> emissive (material (updateShimmers st)) = originalEmissive anim
      \<and> shimmerAnimations (updateShimmers st) = filter running (map (advance 0.05) rest))
   \<and> (shimmerAnimations st = [] \<longrightarrow> 20 \<le> n \<longrightarrow>
        material ((updateShimmers ^^ n) (startShimmerEffect sh st)) = material st
      \<and> shimmerAnimations ((updateShimmers ^^ n) (startShimmerEffect sh st)) = [])"
proof -
  have a: "\<exists>m'. shimmerLoop (Suc i) as m = shimmerLoop i (take i as @ drop (Suc i) as) m'
         \<and> mat_color m' = originalColor (as ! i)
         \<and> metalness m' = originalMetalness (as ! i)
         \<and> emissive m' = originalEmissive (as ! i)"
    if "i < length as" and "1 \<le> anim_progress (as ! i) + 0.05"
  proof -
    from that(2) have "\<not> running (advance 0.05 (as ! i))"
      by (simp add: running_def advance_def)
    then have "shimmerLoop (Suc i) as m =
        shimmerLoop i (take i as @ drop (Suc i) as) (restoreMaterial (advance 0.05 (as ! i)) m)"
      by (simp add: shimmerLoop_Suc)
    then show ?thesis
      by (intro exI [of _ "restoreMaterial (advance 0.05 (as ! i)) m"])
         (simp add: restoreMaterial_def advance_def)
  qed
  have b: "mat_color (material (updateShimmers st)) = originalColor anim
      \<and> metalness (material (updateShimmers st)) = originalMetalness anim
      \<and> emissive (material (updateShimmers st)) = originalEmissive anim
      \<and> shimmerAnimations (updateShimmers st) = filter running (map (advance 0.05) rest)"
    if "shimmerAnimations st = anim # rest" and "1 \<le> anim_progress anim + 0.05"
  proof -
    from that(2) have "\<not> running (advance 0.05 anim)"
      by (simp add: running_def advance_def)
    with that(1) show ?thesis
      by (simp add: updateShimmers_material updateShimmers_list restoreMaterial_def advance_def)
  qed
  have c: "material ((updateShimmers ^^ n) (startShimmerEffect sh st)) = material st
      \<and> shimmerAnimations ((updateShimmers ^^ n) (startShimmerEffect sh st)) = []"
    if "shimmerAnimations st = []" and "20 \<le> n"
  proof -
    from that(2) obtain k where n: "n = k + 20"
      by (metis le_add_diff_inverse2)
    have "(updateShimmers ^^ n) (startShimmerEffect sh st) =
        (updateShimmers ^^ k) ((updateShimmers ^^ 20) (startShimmerEffect sh st))"
      unfolding n by (simp add: funpow_add)
    with passes_empty [OF round_trip_20(2) [OF that(1)], of k sh] round_trip_20(1) [OF that(1), of sh]
    show ?thesis by simp
  qed
  show ?thesis
  proof (rule conjI [OF _ conjI])
    show "i < length as \<longrightarrow> 1 \<le> anim_progress (as ! i) + 0.05 \<longrightarrow>
      (\<exists>m'. shimmerLoop (Suc i) as m = shimmerLoop i (take i as @ drop (Suc i) as) m'
         \<and> mat_color m' = originalColor (as ! i)
         \<and> metalness m' = originalMetalness (as ! i)
         \<and> emissive m' = originalEmissive (as ! i))"
      by (intro impI) (rule a)
    show "shimmerAnimations st = anim # rest \<longrightarrow> 1 \<le> anim_progress anim + 0.05 \<longrightarrow>
        mat_color (material (updateShimmers st)) = originalColor anim
      \<and> metalness (material (updateShimmers st)) = originalMetalness anim
      \<and> emissive (material (updateShimmers st)) = originalEmissive anim
      \<and> shimmerAnimations (updateShimmers st) = filter running (map (advance 0.05) rest)"
      by (intro impI) (rule b)
    show "shimmerAnimations st = [] \<longrightarrow> 20 \<le> n \<longrightarrow>
        material ((updateShimmers ^^ n) (startShimmerEffect sh st)) = material st
      \<and> shimmerAnimations ((updateShimmers ^^ n) (startShimmerEffect sh st)) = []"
      by (intro impI) (rule c)
  qed
qed

text \<open>A record one pass before its end on the two-shape scene, and the round trip there.\<close>

theorem shimmer_restores_snapshot_witness:
  "(\<exists>m'. shimmerLoop (Suc 0) [almostDone] (material shimmering) = shimmerLoop 0 [] m'
       \<and> mat_color m' = mat_color initialMaterial
       \<and> metalness m' = metalness initialMaterial
       \<and> emissive m' = emissive initialMaterial)
   \<and> material (updateShimmers shimmering) = initialMaterial
   \<and> shimmerAnimations (updateShimmers shimmering) = []
   \<and> material ((updateShimmers ^^ 20) (startShimmerEffect 1 twoShapes)) = material twoShapes
   \<and> shimmerAnimations ((updateShimmers ^^ 20) (startShimmerEffect 1 twoShapes)) = []"
proof -
  have l: "shimmerAnimations shimmering = almostDone # []"
    and p: "1 \<le> anim_progress almostDone + 0.05"
    and i: "0 < length [almostDone]" and q: "1 \<le> anim_progress ([almostDone] ! 0) + 0.05"
    and e: "shimmerAnimations twoShapes = []"
    by (simp_all add: shimmering_def almostDone_def twoShapes_def sceneSetup_def)
  note t1 = shimmer_restores_snapshot [where i = 0 and as = "[almostDone]" and m = "material shimmering"
               and st = shimmering and anim = almostDone and rest = "[]" and n = 20 and sh = 1]
  note t2 = shimmer_restores_snapshot [where i = 0 and as = "[almostDone]" and m = "material shimmering"
               and st = twoShapes and anim = almostDone and rest = "[]" and n = 20 and sh = 1]
  from t1 i q have a: "\<exists>m'. shimmerLoop (Suc 0) [almostDone] (material shimmering) = shimmerLoop 0 [] m'
       \<and> mat_color m' = mat_color initialMaterial
       \<and> metalness m' = metalness initialMaterial
       \<and> emissive m' = emissive initialMaterial"
    by (simp add: almostDone_def)
  from t1 l p have b: "mat_color (material (updateShimmers shimmering)) = mat_color initialMaterial
      \<and> metalness (material (updateShimmers shimmering)) = metalness initialMaterial
      \<and> emissive (material (updateShimmers shimmering)) = emissive initialMaterial
      \<and> shimmerAnimations (updateShimmers shimmering) = []"
    by (simp add: almostDone_def)
  have "roughness (material (updateShimmers shimmering)) = roughness initialMaterial"
    using passes_roughness [of 1 shimmering]
    by (simp add: shimmering_def shimmerMaterial_def Let_def)
  with b have b': "material (updateShimmers shimmering) = initialMaterial"
    by (intro standardMaterial.equality) simp_all
  from t2 e have c: "material ((updateShimmers ^^ 20) (startShimmerEffect 1 twoShapes)) = material twoShapes
      \<and> shimmerAnimations ((updateShimmers ^^ 20) (startShimmerEffect 1 twoShapes)) = []"
    by simp
  from a b b' c show ?thesis by (intro conjI) simp_all
qed

section \<open>Shimmer records across frames\<close>

lemma aged_append: "aged n (as @ bs) = aged n as @ aged n bs"
  by (simp add: aged_def)

lemma aged_Suc: "filter running (map (advance 0.05) (aged n as)) = aged (Suc n) as"
proof (cases n)
  case 0
  then show ?thesis by (simp add: aged_def)
next
  case (Suc k)
  have adv: "advance 0.05 (advance (real (Suc k) * 0.05) a) = advance (real (Suc (Suc k)) * 0.05) a" for a
    by (simp add: advance_def algebra_simps)
  have run: "running (advance 0.05 a) \<Longrightarrow> running a" for a
    by (simp add: running_def advance_def)
  have "filter running (map (advance 0.05)
        (filter running (map (advance (real (Suc k) * 0.05)) as))) =
      map (advance 0.05) (filter (\<lambda>a. running (advance 0.05 a) \<and> running a)
        (map (advance (real (Suc k) * 0.05)) as))"
    by (simp add: filter_map comp_def conj_commute)
  also have "(\<lambda>a. running (advance 0.05 a) \<and> running a) = (\<lambda>a. running (advance 0.05 a))"
    using run by auto
  also have "map (advance 0.05) (filter (\<lambda>a. running (advance 0.05 a))
        (map (advance (real (Suc k) * 0.05)) as)) =
      filter running (map (advance (real (Suc (Suc k)) * 0.05)) as)"
    unfolding filter_map comp_def map_map adv ..
  finally show ?thesis
    unfolding Suc aged_def by simp
qed

lemma updateArc_shimmers:
  assumes "updateArc fails index st rs = Done (st', rs')"
  shows "\<exists>new. shimmerAnimations st' = shimmerAnimations st @ new"
  using assms
proof (cases rule: updateArc_DoneE)
  case inactive
  then show ?thesis by simp
next
  case (advanced a')
  then show ?thesis by simp
next
  case completed
  from replaceArc_DoneD [OF completed(4)] show ?thesis
    by (auto simp: startShimmerEffect_def split: option.splits)
next
  case failed
  from replaceArc_DoneD [OF failed(5)] show ?thesis by auto
qed

lemma updateArcs_shimmers:
  "updateArcs fails is st rs = Done (st', rs') \<Longrightarrow>
     \<exists>new. shimmerAnimations st' = shimmerAnimations st @ new"
proof (induction "is" arbitrary: st rs)
  case Nil
  then show ?case by simp
next
  case (Cons i "is")
  from Cons.prems obtain st1 rs1 where
    u: "updateArc fails i st rs = Done (st1, rs1)" and
    r: "updateArcs fails is st1 rs1 = Done (st', rs')"
    by (auto simp: obind_eq_Done)
  from updateArc_shimmers [OF u] obtain n1 where "shimmerAnimations st1 = shimmerAnimations st @ n1"
    by blast
  moreover from Cons.IH [OF r] obtain n2 where "shimmerAnimations st' = shimmerAnimations st1 @ n2"
    by blast
  ultimately have "shimmerAnimations st' = shimmerAnimations st @ (n1 @ n2)" by simp
  then show ?case ..
qed

lemma animate_shimmers:
  assumes "animate fails now st rs = Done (st', rs')"
  shows "\<exists>new. shimmerAnimations st' =
           filter running (map (advance 0.05) (shimmerAnimations st @ new))"
  using assms
proof (cases rule: animate_DoneE)
  case (1 shuffled rs1 st3 st4)
  from updateArcs_shimmers [OF 1(11)] 1(8) obtain new where
    "shimmerAnimations st4 = shimmerAnimations st @ new"
    by auto
  with 1(12) have "shimmerAnimations st' =
           filter running (map (advance 0.05) (shimmerAnimations st @ new))"
    by (simp add: render_def updateShimmers_list)
  then show ?thesis ..
qed

lemma fire_shimmers:
  assumes "fire fails ev st rs = Done (st', rs')" and "hostInvariant st"
    and "shimmerAnimations st = aged k as @ bs"
  shows "\<exists>bs'. shimmerAnimations st' = aged (k + frameCount [ev]) as @ bs'"
proof (cases ev)
  case (Frame now)
  from assms(2) obtain f where p: "pending_frames st = [f]"
    by (auto simp: hostInvariant_iff)
  with assms(1) Frame have "animate fails now (st\<lparr>pending_frames := []\<rparr>) rs = Done (st', rs')"
    by (simp add: fire_def)
  from animate_shimmers [OF this] obtain new where
    "shimmerAnimations st' = filter running (map (advance 0.05) (shimmerAnimations st @ new))"
    by auto
  with assms(3) have "shimmerAnimations st' =
      aged (Suc k) as @ filter running (map (advance 0.05) (bs @ new))"
    by (simp only: map_append filter_append aged_Suc append_assoc)
  with Frame show ?thesis by (simp add: frameCount_def)
next
  case (Resize w h)
  with assms(1,3) show ?thesis
    by (auto simp: fire_def frameCount_def handleResize_def Let_def split: if_splits)
next
  case (FontLoaded tw)
  with assms(1,3) show ?thesis
    by (auto simp: fire_def frameCount_def fontLoaded_def)
qed

lemma frameCount_Cons: "frameCount (ev # evs) = frameCount [ev] + frameCount evs"
  by (simp add: frameCount_def)

lemma run_shimmers:
  "run fails evs st rs = Done (st', rs') \<Longrightarrow> poolInvariant st \<Longrightarrow> hostInvariant st
     \<Longrightarrow> shimmerAnimations st = aged k as @ bs
     \<Longrightarrow> \<exists>bs'. shimmerAnimations st' = aged (k + frameCount evs) as @ bs'"
proof (induction evs arbitrary: st rs k bs)
  case Nil
  then show ?case by (simp add: frameCount_def)
next
  case (Cons ev evs)
  from Cons.prems(1) obtain st1 rs1 where
    f: "fire fails ev st rs = Done (st1, rs1)" and
    r: "run fails evs st1 rs1 = Done (st', rs')"
    by (auto simp: obind_eq_Done)
  from fire_shimmers [OF f Cons.prems(3,4)] obtain bs1 where
    "shimmerAnimations st1 = aged (k + frameCount [ev]) as @ bs1"
    by blast
  from Cons.IH [OF r fire_invariants [OF f Cons.prems(2,3)] this]
  show ?case
    by (simp add: frameCount_Cons [of ev evs] add.assoc)
qed

text \<open>
  The same lifetime across whole frames, whatever the arc updates append in between: in a
  mounted state whose list is \<open>as @ [r] @ bs\<close> with \<open>r\<close> below 1, after events with \<open>n\<close> frames among them the
  list starts with the survivors of \<open>as\<close>, followed by \<open>r\<close> advanced by \<open>n * 0.05\<close> exactly
  when that progress is still below 1.
\<close>

lemma shimmer_record_lifetime:
  assumes "run fails evs st rs = Done (st', rs')" and "poolInvariant st" and "hostInvariant st"
    and "shimmerAnimations st = as @ r # bs" and "anim_progress r < 1"
  shows "\<exists>bs'. shimmerAnimations st' =
           aged (frameCount evs) as
           @ (if anim_progress r + real (frameCount evs) * 0.05 < 1
              then [advance (real (frameCount evs) * 0.05) r] else [])
           @ bs'"
proof -
  from assms(4) have "shimmerAnimations st = aged 0 (as @ [r]) @ bs"
    by (simp add: aged_def)
  from run_shimmers [OF assms(1-3) this] obtain bs' where
    l: "shimmerAnimations st' = aged (frameCount evs) (as @ [r]) @ bs'"
    by auto
  have "aged (frameCount evs) [r] =
      (if anim_progress r + real (frameCount evs) * 0.05 < 1
       then [advance (real (frameCount evs) * 0.05) r] else [])"
    using assms(5) by (cases "frameCount evs = 0") (auto simp: aged_def running_def advance_def)
  with l show ?thesis
    by (simp add: aged_append)
qed

section \<open>What a frame does to each slot\<close>

lemma animate_eq:
  "animate fails now st rs =
     obind (shuffle (length (arcs st) - 1) [0 ..< length (arcs st)] rs) (\<lambda>(shuffled, rs1).
       obind (updateArcs fails (take (numArcsToUpdate st) shuffled) (beforeArcs now st) rs1)
         (\<lambda>(st4, rs2). Done (render (updateShimmers st4), rs2)))"
  by (simp add: animate_def Let_def requestAnimationFrame_def beforeArcs_def numArcsToUpdate_def)

lemma beforeArcs_fields [simp]:
  "arcs (beforeArcs now st) = arcs st"
  "next_id (beforeArcs now st) = next_id st"
  "released (beforeArcs now st) = released st"
  "scene (beforeArcs now st) = scene st"
  "length (shapes (beforeArcs now st)) = length (shapes st)"
  "shimmerAnimations (beforeArcs now st) = shimmerAnimations st"
  by (simp_all add: beforeArcs_def requestAnimationFrame_def rotateShapes_def)

lemma arcUpdated_mono: "arcUpdated fails n a a' \<Longrightarrow> n0 \<le> n \<Longrightarrow> arcUpdated fails n0 a a'"
  by (auto simp: arcUpdated_def split: if_splits)

lemma updateArc_updated:
  assumes "updateArc fails index st rs = Done (st', rs')"
  shows "arcUpdated fails (next_id st) (arcs st ! index) (arcs st' ! index)"
    and "next_id st \<le> next_id st'"
    and "set (released st) \<subseteq> set (released st')"
    and "replaced fails (arcs st ! index) \<Longrightarrow>
           set [LineGeometry (line_id (line (arcs st ! index))),
                LineMaterial (line_id (line (arcs st ! index)))] \<subseteq> set (released st')"
proof -
  let ?a = "arcs st ! index"
  let ?a1 = "?a\<lparr>progress := progress ?a + speed ?a\<rparr>"
  from assms have "arcUpdated fails (next_id st) ?a (arcs st' ! index)
      \<and> next_id st \<le> next_id st' \<and> set (released st) \<subseteq> set (released st')
      \<and> (replaced fails ?a \<longrightarrow>
           set [LineGeometry (line_id (line ?a)), LineMaterial (line_id (line ?a))]
             \<subseteq> set (released st'))"
  proof (cases rule: updateArc_DoneE)
    case inactive
    then show ?thesis by (simp add: arcUpdated_def replaced_def)
  next
    case (advanced a')
    from recomputeVisible_DoneD(1) [OF advanced(4)] advanced show ?thesis
      by (simp add: arcUpdated_def replaced_def)
  next
    case completed
    from replaceArc_DoneD [OF completed(4)] completed(1-3) show ?thesis
      by (auto simp: arcUpdated_def replaced_def startShimmerEffect_def newArc_fresh
               split: option.splits)
  next
    case failed
    from replaceArc_DoneD [OF failed(5)] failed(1-4) show ?thesis
      by (auto simp: arcUpdated_def replaced_def newArc_fresh)
  qed
  then show "arcUpdated fails (next_id st) (arcs st ! index) (arcs st' ! index)"
    and "next_id st \<le> next_id st'"
    and "set (released st) \<subseteq> set (released st')"
    and "replaced fails (arcs st ! index) \<Longrightarrow>
           set [LineGeometry (line_id (line (arcs st ! index))),
                LineMaterial (line_id (line (arcs st ! index)))] \<subseteq> set (released st')"
    by simp_all
qed

lemma updateArcs_mono:
  "updateArcs fails is st rs = Done (st', rs') \<Longrightarrow>
     next_id st \<le> next_id st' \<and> set (released st) \<subseteq> set (released st')"
proof (induction "is" arbitrary: st rs)
  case Nil
  then show ?case by simp
next
  case (Cons i "is")
  from Cons.prems obtain st1 rs1 where
    u: "updateArc fails i st rs = Done (st1, rs1)" and
    r: "updateArcs fails is st1 rs1 = Done (st', rs')"
    by (auto simp: obind_eq_Done)
  from Cons.IH [OF r] updateArc_updated(2,3) [OF u] show ?case by auto
qed

lemma updateArcs_updated:
  "updateArcs fails is st rs = Done (st', rs') \<Longrightarrow> distinct is \<Longrightarrow> j \<in> set is \<Longrightarrow>
     arcUpdated fails (next_id st) (arcs st ! j) (arcs st' ! j)
     \<and> (replaced fails (arcs st ! j) \<longrightarrow>
           set [LineGeometry (line_id (line (arcs st ! j))),
                LineMaterial (line_id (line (arcs st ! j)))] \<subseteq> set (released st'))"
proof (induction "is" arbitrary: st rs)
  case Nil
  then show ?case by simp
next
  case (Cons i "is")
  from Cons.prems(1) obtain st1 rs1 where
    u: "updateArc fails i st rs = Done (st1, rs1)" and
    r: "updateArcs fails is st1 rs1 = Done (st', rs')"
    by (auto simp: obind_eq_Done)
  from Cons.prems(2) have d: "distinct is" and ni: "i \<notin> set is" by simp_all
  show ?case
  proof (cases "j = i")
    case True
    from updateArcs_other [OF r ni] have same: "arcs st' ! i = arcs st1 ! i" .
    from updateArcs_mono [OF r] have "set (released st1) \<subseteq> set (released st')" by simp
    with updateArc_updated(1,4) [OF u] same True show ?thesis by auto
  next
    case False
    with Cons.prems(3) have j: "j \<in> set is" by simp
    from updateArc_other [OF u False] have "arcs st1 ! j = arcs st ! j" .
    with Cons.IH [OF r d j] arcUpdated_mono [OF _ updateArc_updated(2) [OF u]]
    show ?thesis by auto
  qed
qed

lemma animate_slots:
  assumes "animate fails now st rs = Done (st', rs')"
  shows "\<exists>shuffled rs1.
           shuffle (length (arcs st) - 1) [0 ..< length (arcs st)] rs = Done (shuffled, rs1)
           \<and> (\<forall>j \<in> set (take (numArcsToUpdate st) shuffled).
                 arcUpdated fails (next_id st) (arcs st ! j) (arcs st' ! j)
                 \<and> (replaced fails (arcs st ! j) \<longrightarrow>
                      set [LineGeometry (line_id (line (arcs st ! j))),
                           LineMaterial (line_id (line (arcs st ! j)))] \<subseteq> set (released st')))
           \<and> (\<forall>j. j \<notin> set (take (numArcsToUpdate st) shuffled) \<longrightarrow> arcs st' ! j = arcs st ! j)"
proof -
  from assms obtain shuffled rs1 st4 where
    sh: "shuffle (length (arcs st) - 1) [0 ..< length (arcs st)] rs = Done (shuffled, rs1)" and
    up: "updateArcs fails (take (numArcsToUpdate st) shuffled) (beforeArcs now st) rs1 = Done (st4, rs')" and
    st': "st' = render (updateShimmers st4)"
    unfolding animate_eq by (auto simp: obind_eq_Done)
  have a: "arcs st' = arcs st4" and r: "released st' = released st4"
    by (simp_all add: st' render_def updateShimmers_fields updateShimmers_def split: prod.splits)
  note d = shuffled_indices(1) [OF sh, of "numArcsToUpdate st"]
  have "\<forall>j \<in> set (take (numArcsToUpdate st) shuffled).
                 arcUpdated fails (next_id st) (arcs st ! j) (arcs st' ! j)
                 \<and> (replaced fails (arcs st ! j) \<longrightarrow>
                      set [LineGeometry (line_id (line (arcs st ! j))),
                           LineMaterial (line_id (line (arcs st ! j)))] \<subseteq> set (released st'))"
    using updateArcs_updated [OF up d] by (simp add: a r)
  moreover have "\<forall>j. j \<notin> set (take (numArcsToUpdate st) shuffled) \<longrightarrow> arcs st' ! j = arcs st ! j"
    using updateArcs_other [OF up] by (simp add: a)
  ultimately show ?thesis using sh by (intro exI [of _ shuffled] exI [of _ rs1] conjI)
qed

section \<open>When a frame returns\<close>

lemma shuffle_append:
  "shuffle k xs sh = Done (ys, rs') \<Longrightarrow> shuffle k xs (sh @ rest) = Done (ys, rs' @ rest)"
  by (induction k xs sh rule: shuffle.induct) (simp_all add: Let_def)

lemma shuffle_exact:
  assumes "length sh = k"
  shows "\<exists>ys. shuffle k xs (sh @ rest) = Done (ys, rest) \<and> shuffle k xs sh = Done (ys, [])"
proof -
  from shuffle_returns [of k sh xs] assms obtain ys where s: "shuffle k xs sh = Done (ys, [])"
    by auto
  from shuffle_append [OF s, of rest] s show ?thesis by auto
qed

lemma updateArc_returns:
  assumes "index < length (arcs st)"
    and "randomIndex r1 (length (shapes st)) \<noteq> randomIndex r0 (length (shapes st))"
  shows "\<exists>st'. updateArc fails index st
                 ((if replaced fails (arcs st ! index) then [r0, r1, r2] else []) @ rs) = Done (st', rs)"
proof (cases "replaced fails (arcs st ! index)")
  case False
  then have "quietArc fails (arcs st ! index)" by (auto simp: replaced_def quietArc_def)
  from updateArc_quiet [OF assms(1) this, of rs] False show ?thesis by auto
next
  case True
  let ?a = "arcs st ! index"
  let ?a1 = "?a\<lparr>progress := progress ?a + speed ?a\<rparr>"
  from True have act: "active ?a" by (simp add: replaced_def)
  have "\<exists>st2. updateArc fails index st (r0 # r1 # r2 # rs) = replaceArc index ?a1 st2 (r0 # r1 # r2 # rs)
           \<and> shapes st2 = shapes st"
  proof (cases "1 \<le> progress ?a + speed ?a")
    case True
    let ?st1 = "st\<lparr>arcs := (arcs st)[index := ?a1]\<rparr>"
    let ?st2 = "case targetShape ?a1 of Some t \<Rightarrow> startShimmerEffect t ?st1 | None \<Rightarrow> ?st1"
    from True assms(1) act
    have "updateArc fails index st (r0 # r1 # r2 # rs) = replaceArc index ?a1 ?st2 (r0 # r1 # r2 # rs)"
      by (simp add: updateArc_def Let_def)
    moreover have "shapes ?st2 = shapes st"
      by (simp add: startShimmerEffect_def split: option.split)
    ultimately show ?thesis by (intro exI conjI)
  next
    case False
    with True have "fails ?a1" by (simp add: replaced_def)
    from updateArc_failed [where fails = fails, OF assms(1) act _ this, of "r0 # r1 # r2 # rs"] False
    show ?thesis by (intro exI conjI) (assumption | simp)+
  qed
  then obtain st2 where u: "updateArc fails index st (r0 # r1 # r2 # rs) = replaceArc index ?a1 st2 (r0 # r1 # r2 # rs)"
    and s: "shapes st2 = shapes st" by auto
  from assms(2) s have "randomIndex r1 (length (shapes st2)) \<noteq> randomIndex r0 (length (shapes st2))"
    by simp
  from replaceArc_returns [OF this, of index ?a1 r2 rs] u True show ?thesis by simp
qed

lemma updateArcs_returns:
  "distinct is \<Longrightarrow> \<forall>i \<in> set is. i < length (arcs st) \<Longrightarrow>
   randomIndex r1 (length (shapes st)) \<noteq> randomIndex r0 (length (shapes st)) \<Longrightarrow>
     \<exists>st'. updateArcs fails is st (replacementDraws fails st is [r0, r1, r2] @ rs) = Done (st', rs)"
proof (induction "is" arbitrary: st)
  case Nil
  then show ?case by (simp add: replacementDraws_def)
next
  case (Cons i "is")
  let ?f = "\<lambda>st j. if replaced fails (arcs st ! j) then [r0, r1, r2] else []"
  from Cons.prems(2) have i: "i < length (arcs st)" by simp
  from updateArc_returns [OF i Cons.prems(3), of fails r2 "replacementDraws fails st is [r0, r1, r2] @ rs"]
  obtain st1 where u: "updateArc fails i st (?f st i @ replacementDraws fails st is [r0, r1, r2] @ rs)
       = Done (st1, replacementDraws fails st is [r0, r1, r2] @ rs)"
    by auto
  from Cons.prems(1) have d: "distinct is" and ni: "i \<notin> set is" by simp_all
  have same: "\<forall>j \<in> set is. arcs st1 ! j = arcs st ! j"
  proof
    fix j assume "j \<in> set is"
    with ni have "j \<noteq> i" by auto
    from updateArc_other [OF u this] show "arcs st1 ! j = arcs st ! j" .
  qed
  then have eq: "replacementDraws fails st is [r0, r1, r2] = replacementDraws fails st1 is [r0, r1, r2]"
    unfolding replacementDraws_def by (intro arg_cong [where f = concat] map_cong) simp_all
  from updateArc_length [OF u] Cons.prems(2) have r: "\<forall>i \<in> set is. i < length (arcs st1)" by simp
  from updateArc_outsidePool [OF u] Cons.prems(3)
  have sh: "randomIndex r1 (length (shapes st1)) \<noteq> randomIndex r0 (length (shapes st1))"
    by (simp add: outsidePool_def)
  from Cons.IH [OF d r sh] obtain st' where
    "updateArcs fails is st1 (replacementDraws fails st1 is [r0, r1, r2] @ rs) = Done (st', rs)" by auto
  with u eq have "updateArcs fails (i # is) st (replacementDraws fails st (i # is) [r0, r1, r2] @ rs) = Done (st', rs)"
    by (simp add: replacementDraws_def)
  then show ?case ..
qed

lemma animate_returns:
  assumes "length sh = length (arcs st) - 1"
    and "randomIndex r1 (length (shapes st)) \<noteq> randomIndex r0 (length (shapes st))"
  shows "\<exists>shuffled st'.
           shuffle (length (arcs st) - 1) [0 ..< length (arcs st)] sh = Done (shuffled, [])
           \<and> animate fails now st
               (sh @ replacementDraws fails st (take (numArcsToUpdate st) shuffled) [r0, r1, r2] @ rest)
             = Done (st', rest)"
proof -
  let ?n = "length (arcs st)"
  from shuffle_exact [OF assms(1)] obtain shuffled where
    s0: "shuffle (?n - 1) [0 ..< ?n] sh = Done (shuffled, [])" by blast
  let ?sel = "take (numArcsToUpdate st) shuffled"
  let ?rd = "replacementDraws fails st ?sel [r0, r1, r2]"
  from shuffle_append [OF s0, of "?rd @ rest"]
  have s1: "shuffle (?n - 1) [0 ..< ?n] (sh @ ?rd @ rest) = Done (shuffled, ?rd @ rest)" by simp
  note d = shuffled_indices [OF s0, of "numArcsToUpdate st"]
  have rd: "replacementDraws fails (beforeArcs now st) ?sel [r0, r1, r2] = ?rd"
    by (simp add: replacementDraws_def)
  from d(2) have r: "\<forall>i \<in> set ?sel. i < length (arcs (beforeArcs now st))" by simp
  from assms(2) have sh: "randomIndex r1 (length (shapes (beforeArcs now st)))
      \<noteq> randomIndex r0 (length (shapes (beforeArcs now st)))" by simp
  from updateArcs_returns [OF d(1) r sh, of fails r2 rest] obtain st4 where
    u: "updateArcs fails ?sel (beforeArcs now st) (?rd @ rest) = Done (st4, rest)"
    unfolding rd by auto
  have "animate fails now st (sh @ ?rd @ rest) = Done (render (updateShimmers st4), rest)"
    using s1 u unfolding animate_eq by simp
  with s0 show ?thesis by (intro exI conjI)
qed

section \<open>The lines of the pool\<close>

lemma lineInvariant_update:
  assumes "lineInvariant st" and "arcs st' = (arcs st)[i := a]" and "line_id (line a) < next_id st'"
    and "next_id st \<le> next_id st'"
  shows "lineInvariant st'"
  unfolding lineInvariant_def
proof
  fix b assume "b \<in> set (arcs st')"
  with assms(2) set_update_subset_insert [of "arcs st" i a] have "b = a \<or> b \<in> set (arcs st)"
    by auto
  with assms(1,3,4) show "line_id (line b) < next_id st'"
    by (auto simp: lineInvariant_def)
qed

lemma replaceArc_line:
  assumes "replaceArc index a st rs = Done (st', rs')" and "lineInvariant st"
  shows "lineInvariant st'" and "next_id st' = next_id st + 1"
proof -
  from replaceArc_DoneD [OF assms(1)] obtain s e t r where
    st': "st' = st\<lparr>arcs := (arcs st)[index := newArc (next_id st) s e t r],
                    scene := sceneRemove (LineNode (line_id (line a))) (scene st) @ [LineNode (next_id st)],
                    released := released st @ [LineGeometry (line_id (line a)), LineMaterial (line_id (line a))],
                    next_id := next_id st + 1\<rparr>"
    by blast
  then show n: "next_id st' = next_id st + 1" by simp
  from st' have a: "arcs st' = (arcs st)[index := newArc (next_id st) s e t r]" by simp
  show "lineInvariant st'"
    by (rule lineInvariant_update [OF assms(2) a]) (simp_all add: n)
qed

lemma updateArc_line:
  assumes "updateArc fails index st rs = Done (st', rs')" and "lineInvariant st"
  shows "lineInvariant st'"
  using assms(1)
proof (cases rule: updateArc_DoneE)
  case inactive
  with assms(2) show ?thesis by simp
next
  case (advanced a')
  from recomputeVisible_DoneD(5) [OF advanced(4)]
  have l: "line_id (line a') = line_id (line (arcs st ! index))" by simp
  from advanced(1) assms(2) have "line_id (line (arcs st ! index)) < next_id st"
    by (simp add: lineInvariant_def)
  with l advanced(5) have "line_id (line a') < next_id st'" by simp
  with advanced(5) show ?thesis
    by (intro lineInvariant_update [OF assms(2), of st' index a']) simp_all
next
  case completed
  let ?a1 = "(arcs st ! index)\<lparr>progress := progress (arcs st ! index) + speed (arcs st ! index)\<rparr>"
  let ?st1 = "st\<lparr>arcs := (arcs st)[index := ?a1]\<rparr>"
  let ?st2 = "case targetShape (arcs st ! index) of Some t \<Rightarrow> startShimmerEffect t ?st1 | None \<Rightarrow> ?st1"
  from completed(1) assms(2) have "line_id (line ?a1) < next_id st"
    by (simp add: lineInvariant_def)
  then have "lineInvariant ?st1"
    by (intro lineInvariant_update [OF assms(2), of ?st1 index ?a1]) simp_all
  then have "lineInvariant ?st2"
    by (simp add: lineInvariant_def startShimmerEffect_def split: option.split)
  from replaceArc_line(1) [OF completed(4) this] show ?thesis .
next
  case failed
  let ?a1 = "(arcs st ! index)\<lparr>progress := progress (arcs st ! index) + speed (arcs st ! index)\<rparr>"
  let ?st1 = "st\<lparr>arcs := (arcs st)[index := ?a1]\<rparr>"
  from failed(1) assms(2) have "line_id (line ?a1) < next_id st"
    by (simp add: lineInvariant_def)
  then have "lineInvariant ?st1"
    by (intro lineInvariant_update [OF assms(2), of ?st1 index ?a1]) simp_all
  from replaceArc_line(1) [OF failed(5) this] show ?thesis .
qed

lemma updateArcs_line:
  "updateArcs fails is st rs = Done (st', rs') \<Longrightarrow> lineInvariant st \<Longrightarrow> lineInvariant st'"
proof (induction "is" arbitrary: st rs)
  case Nil
  then show ?case by simp
next
  case (Cons i "is")
  from Cons.prems(1) obtain st1 rs1 where
    u: "updateArc fails i st rs = Done (st1, rs1)" and
    r: "updateArcs fails is st1 rs1 = Done (st', rs')"
    by (auto simp: obind_eq_Done)
  from Cons.IH [OF r updateArc_line [OF u Cons.prems(2)]] show ?case .
qed

lemma animate_line:
  assumes "animate fails now st rs = Done (st', rs')"
  shows "next_id st \<le> next_id st'" and "lineInvariant st \<Longrightarrow> lineInvariant st'"
    and "length (shapes st') = length (shapes st)"
proof -
  from assms obtain shuffled rs1 st4 where
    up: "updateArcs fails (take (numArcsToUpdate st) shuffled) (beforeArcs now st) rs1 = Done (st4, rs')" and
    st': "st' = render (updateShimmers st4)"
    unfolding animate_eq by (auto simp: obind_eq_Done)
  have f: "arcs st' = arcs st4" "next_id st' = next_id st4" "shapes st' = shapes st4"
    by (simp_all add: st' render_def updateShimmers_def split: prod.splits)
  from updateArcs_mono [OF up] f(2) show "next_id st \<le> next_id st'" by simp
  from updateArcs_outsidePool [OF up] f(3) show "length (shapes st') = length (shapes st)"
    by (simp add: outsidePool_def)
  assume "lineInvariant st"
  then have "lineInvariant (beforeArcs now st)" by (simp add: lineInvariant_def)
  from updateArcs_line [OF up this] f(1,2) show "lineInvariant st'"
    by (simp add: lineInvariant_def)
qed

lemma initArcs_line:
  "initArcs n st rs = Done (st', rs') \<Longrightarrow> lineInvariant st \<Longrightarrow> lineInvariant st'"
proof (induction n arbitrary: st rs)
  case 0
  then show ?case by simp
next
  case (Suc n)
  from Suc.prems(1) obtain a st1 rs1 where
    c: "createArc st rs = Done (a, st1, rs1)" and
    r: "initArcs n (st1\<lparr>arcs := arcs st1 @ [a]\<rparr>) rs1 = Done (st', rs')"
    by (auto simp: obind_eq_Done)
  from createArc_DoneD [OF c] obtain s e r where
    a: "a = newArc (next_id st) (position (shapes st ! s)) (position (shapes st ! e)) e r"
    and st1: "st1 = st\<lparr>scene := scene st @ [LineNode (next_id st)], next_id := next_id st + 1\<rparr>"
    by blast
  from Suc.prems(2) a st1 have "lineInvariant (st1\<lparr>arcs := arcs st1 @ [a]\<rparr>)"
    by (auto simp: lineInvariant_def)
  from Suc.IH [OF r this] show ?case .
qed

lemma mount_line:
  assumes "mountEffect fails (Some cs) w h now rs = Done (Some st0, rs0)"
  shows "lineInvariant st0" and "length (shapes st0) = 91"
proof -
  from assms obtain st1 rs1 st2 where
    i: "initArcs maxArcs (sceneSetup cs w h) rs = Done (st1, rs1)" and
    a: "animate fails now (addLightsAndStars st1) rs1 = Done (st2, rs0)" and
    st0: "st0 = st2\<lparr>resize_listener := True\<rparr>"
    by (rule mountEffect_DoneE)
  have "lineInvariant (sceneSetup cs w h)" by (simp add: lineInvariant_def sceneSetup_def)
  from initArcs_line [OF i this] have "lineInvariant (addLightsAndStars st1)"
    by (simp add: lineInvariant_def addLightsAndStars_def)
  from animate_line(2) [OF a this] st0 show "lineInvariant st0"
    by (simp add: lineInvariant_def)
  from initArcs_DoneD [OF i] have "shapes st1 = hexShapes radius gridSize"
    by (simp add: outsidePool_def sceneSetup_def)
  with animate_line(3) [OF a] st0 show "length (shapes st0) = 91"
    by (simp add: addLightsAndStars_def length_hexShapes)
qed

lemma fire_line:
  assumes "fire fails ev st rs = Done (st', rs')"
  shows "next_id st \<le> next_id st'" and "lineInvariant st \<Longrightarrow> lineInvariant st'"
    and "length (shapes st') = length (shapes st)"
proof -
  have "next_id st \<le> next_id st' \<and> (lineInvariant st \<longrightarrow> lineInvariant st')
      \<and> length (shapes st') = length (shapes st)"
  proof (cases ev)
    case (Frame t)
    show ?thesis
    proof (cases "pending_frames st")
      case Nil
      with assms Frame show ?thesis by (simp add: fire_def)
    next
      case (Cons f fs)
      with assms Frame have a: "animate fails t (st\<lparr>pending_frames := fs\<rparr>) rs = Done (st', rs')"
        by (simp add: fire_def)
      from animate_line [OF a] show ?thesis by (simp add: lineInvariant_def)
    qed
  next
    case (Resize w h)
    with assms show ?thesis
      by (auto simp: fire_def lineInvariant_def handleResize_def Let_def split: if_splits)
  next
    case (FontLoaded tw)
    with assms show ?thesis by (auto simp: fire_def lineInvariant_def fontLoaded_def)
  qed
  then show "next_id st \<le> next_id st'" and "lineInvariant st \<Longrightarrow> lineInvariant st'"
    and "length (shapes st') = length (shapes st)" by simp_all
qed

lemma run_line:
  "run fails evs st rs = Done (st', rs') \<Longrightarrow>
     next_id st \<le> next_id st' \<and> (lineInvariant st \<longrightarrow> lineInvariant st')
     \<and> length (shapes st') = length (shapes st)"
proof (induction evs arbitrary: st rs)
  case Nil
  then show ?case by simp
next
  case (Cons ev evs)
  from Cons.prems(1) obtain st1 rs1 where
    f: "fire fails ev st rs = Done (st1, rs1)" and
    r: "run fails evs st1 rs1 = Done (st', rs')"
    by (auto simp: obind_eq_Done)
  from fire_line [OF f] Cons.IH [OF r] show ?case by auto
qed

text \<open>What holds of every state after mounting and any events.\<close>

lemma reachable:
  assumes "mountEffect fails (Some cs) w h now rs = Done (Some st0, rs0)"
    and "run fails evs st0 rs0 = Done (st, rs1)"
  shows "poolInvariant st" and "hostInvariant st" and "lineInvariant st"
    and "length (shapes st) = 91"
proof -
  from run_invariants [OF assms(2) mount_invariants(1,2) [OF assms(1)]]
  show "poolInvariant st" and "hostInvariant st" by simp_all
  from run_line [OF assms(2)] mount_line [OF assms(1)]
  show "lineInvariant st" and "length (shapes st) = 91" by simp_all
qed

section \<open>One event, slot by slot\<close>

lemma numArcsToUpdate_pool: "length (arcs st) = maxArcs \<Longrightarrow> numArcsToUpdate st = 2"
  by (simp add: numArcsToUpdate_def maxArcs_def)

lemma fire_frame_slots:
  assumes "fire fails (Frame t) st rs = Done (st', rs')"
    and "poolInvariant st" and "hostInvariant st"
  shows "\<exists>shuffled rs1.
           shuffle (maxArcs - 1) [0 ..< maxArcs] rs = Done (shuffled, rs1)
           \<and> (\<forall>j \<in> set (take 2 shuffled).
                 j < maxArcs
                 \<and> arcUpdated fails (next_id st) (arcs st ! j) (arcs st' ! j)
                 \<and> (replaced fails (arcs st ! j) \<longrightarrow>
                      set [LineGeometry (line_id (line (arcs st ! j))),
                           LineMaterial (line_id (line (arcs st ! j)))] \<subseteq> set (released st')))
           \<and> (\<forall>j. j \<notin> set (take 2 shuffled) \<longrightarrow> arcs st' ! j = arcs st ! j)"
proof -
  from assms(3) obtain f where p: "pending_frames st = [f]"
    by (auto simp: hostInvariant_iff)
  let ?st = "st\<lparr>pending_frames := []\<rparr>"
  from assms(1) p have a: "animate fails t ?st rs = Done (st', rs')"
    by (simp add: fire_def)
  from assms(2) have len: "length (arcs ?st) = maxArcs" by (simp add: poolInvariant_def)
  then have n: "numArcsToUpdate ?st = 2" by (rule numArcsToUpdate_pool)
  from animate_slots [OF a] obtain shuffled rs1 where
    sh: "shuffle (length (arcs ?st) - 1) [0 ..< length (arcs ?st)] rs = Done (shuffled, rs1)" and
    sel: "\<forall>j \<in> set (take (numArcsToUpdate ?st) shuffled).
                 arcUpdated fails (next_id ?st) (arcs ?st ! j) (arcs st' ! j)
                 \<and> (replaced fails (arcs ?st ! j) \<longrightarrow>
                      set [LineGeometry (line_id (line (arcs ?st ! j))),
                           LineMaterial (line_id (line (arcs ?st ! j)))] \<subseteq> set (released st'))" and
    oth: "\<forall>j. j \<notin> set (take (numArcsToUpdate ?st) shuffled) \<longrightarrow> arcs st' ! j = arcs ?st ! j"
    by blast
  from sh len have sh': "shuffle (maxArcs - 1) [0 ..< maxArcs] rs = Done (shuffled, rs1)"
    by simp
  from shuffled_indices(2) [OF sh', of 2] have r: "\<forall>j \<in> set (take 2 shuffled). j < maxArcs" .
  from sel n r have sel': "\<forall>j \<in> set (take 2 shuffled).
                 j < maxArcs
                 \<and> arcUpdated fails (next_id st) (arcs st ! j) (arcs st' ! j)
                 \<and> (replaced fails (arcs st ! j) \<longrightarrow>
                      set [LineGeometry (line_id (line (arcs st ! j))),
                           LineMaterial (line_id (line (arcs st ! j)))] \<subseteq> set (released st'))"
    by simp
  from oth n have oth': "\<forall>j. j \<notin> set (take 2 shuffled) \<longrightarrow> arcs st' ! j = arcs st ! j"
    by simp
  from sh' sel' oth' show ?thesis by (intro exI [of _ shuffled] exI [of _ rs1] conjI)
qed


lemma fire_returns:
  assumes "poolInvariant st" and "hostInvariant st" and "length sh = maxArcs - 1"
    and "randomIndex r1 (length (shapes st)) \<noteq> randomIndex r0 (length (shapes st))"
  shows "\<exists>shuffled st'.
           shuffle (maxArcs - 1) [0 ..< maxArcs] sh = Done (shuffled, [])
           \<and> fire fails (Frame t) st
               (sh @ replacementDraws fails st (take 2 shuffled) [r0, r1, r2] @ rest)
             = Done (st', rest)"
proof -
  from assms(2) obtain f where p: "pending_frames st = [f]"
    by (auto simp: hostInvariant_iff)
  let ?st = "st\<lparr>pending_frames := []\<rparr>"
  from assms(1) have len: "length (arcs ?st) = maxArcs" by (simp add: poolInvariant_def)
  then have n: "numArcsToUpdate ?st = 2" by (rule numArcsToUpdate_pool)
  from assms(3) len have l: "length sh = length (arcs ?st) - 1" by simp
  from assms(4) have s: "randomIndex r1 (length (shapes ?st)) \<noteq> randomIndex r0 (length (shapes ?st))"
    by simp
  from animate_returns [OF l s, of fails t r2 rest] obtain shuffled st' where
    sh: "shuffle (length (arcs ?st) - 1) [0 ..< length (arcs ?st)] sh = Done (shuffled, [])" and
    a: "animate fails t ?st
               (sh @ replacementDraws fails ?st (take (numArcsToUpdate ?st) shuffled) [r0, r1, r2] @ rest)
             = Done (st', rest)"
    by blast
  from sh len have sh': "shuffle (maxArcs - 1) [0 ..< maxArcs] sh = Done (shuffled, [])" by simp
  have rd: "replacementDraws fails ?st (take (numArcsToUpdate ?st) shuffled) [r0, r1, r2]
      = replacementDraws fails st (take 2 shuffled) [r0, r1, r2]"
    by (simp add: n replacementDraws_def)
  from a p have "fire fails (Frame t) st
               (sh @ replacementDraws fails st (take 2 shuffled) [r0, r1, r2] @ rest)
             = Done (st', rest)"
    unfolding rd by (simp add: fire_def)
  with sh' show ?thesis by (intro exI conjI)
qed

lemma arcUpdated_advanced:
  assumes "arcUpdated fails n a a'" and "active a" and "progress a + speed a < 1"
    and "\<not> fails (a\<lparr>progress := progress a + speed a\<rparr>)"
  shows "progress a' = progress a + speed a" and "speed a' = speed a" and "active a'"
    and "line_id (line a') = line_id (line a)" and "start a' = start a"
    and "arc_end a' = arc_end a" and "control a' = control a"
    and "targetShape a' = targetShape a"
proof -
  from assms have "recomputeVisible fails (a\<lparr>progress := progress a + speed a\<rparr>) = Done a'"
    by (simp add: arcUpdated_def replaced_def)
  from recomputeVisible_DoneD [OF this] assms(2)
  show "progress a' = progress a + speed a" and "speed a' = speed a" and "active a'"
    and "line_id (line a') = line_id (line a)" and "start a' = start a"
    and "arc_end a' = arc_end a" and "control a' = control a"
    and "targetShape a' = targetShape a"
    by simp_all
qed

lemma arcUpdated_replaced:
  assumes "arcUpdated fails n a a'" and "active a"
    and "1 \<le> progress a + speed a \<or> fails (a\<lparr>progress := progress a + speed a\<rparr>)"
  shows "freshArc a'" and "n \<le> line_id (line a')"
  using assms by (simp_all add: arcUpdated_def replaced_def)



section \<open>A long run\<close>

lemma randomIndex_rnd_0 [simp]: "randomIndex (rnd_of 0) n = 0"
  by (simp add: randomIndex_def)

lemma shuffle_zero:
  "shuffle 6 [0 ..< 7] (shuffleDraws @ rest) = Done ([1, 2, 3, 4, 5, 6, 0], rest)"
  by (simp add: shuffleDraws_def eval_nat_numeral upt_rec Let_def)

lemma fastDraws_distinct: "randomIndex (rnd_of (1 / 2)) 91 \<noteq> randomIndex (rnd_of 0) 91"
  by (simp add: randomIndex_def)

lemma initArcs_speed:
  assumes "randomIndex r1 (length (shapes st)) \<noteq> randomIndex r0 (length (shapes st))"
  shows "\<exists>st'. initArcs n st (concat (replicate n [r0, r1, r2]) @ rs) = Done (st', rs)
           \<and> (\<forall>a \<in> set (arcs st'). a \<in> set (arcs st)
                 \<or> (progress a = 0 \<and> speed a = 0.02 + value_of r2 * 0.03))"
  using assms
proof (induction n arbitrary: st)
  case 0
  then show ?case by simp
next
  case (Suc n)
  let ?st1 = "st\<lparr>scene := scene st @ [LineNode (next_id st)], next_id := next_id st + 1\<rparr>"
  let ?a = "newArc (next_id st)
                   (position (shapes st ! randomIndex r0 (length (shapes st))))
                   (position (shapes st ! randomIndex r1 (length (shapes st))))
                   (randomIndex r1 (length (shapes st))) r2"
  let ?st2 = "?st1\<lparr>arcs := arcs ?st1 @ [?a]\<rparr>"
  have "randomIndex r1 (length (shapes ?st2)) \<noteq> randomIndex r0 (length (shapes ?st2))"
    using Suc.prems by simp
  from Suc.IH [OF this] obtain st' where
    i: "initArcs n ?st2 (concat (replicate n [r0, r1, r2]) @ rs) = Done (st', rs)" and
    p: "\<forall>a \<in> set (arcs st'). a \<in> set (arcs ?st2)
                 \<or> (progress a = 0 \<and> speed a = 0.02 + value_of r2 * 0.03)"
    by blast
  from i have "initArcs (Suc n) st (concat (replicate (Suc n) [r0, r1, r2]) @ rs) = Done (st', rs)"
    using createArc_returns [OF Suc.prems, of r2 "concat (replicate n [r0, r1, r2]) @ rs"]
    by simp
  moreover have "\<forall>a \<in> set (arcs st'). a \<in> set (arcs st)
                 \<or> (progress a = 0 \<and> speed a = 0.02 + value_of r2 * 0.03)"
  proof
    fix a assume "a \<in> set (arcs st')"
    with p have "a \<in> set (arcs st) \<or> a = ?a \<or> (progress a = 0 \<and> speed a = 0.02 + value_of r2 * 0.03)"
      by auto
    then show "a \<in> set (arcs st) \<or> (progress a = 0 \<and> speed a = 0.02 + value_of r2 * 0.03)"
      by auto
  qed
  ultimately show ?case by (intro exI conjI)
qed

text \<open>A frame whose shuffle draws are all zero updates slots 1 and 2.\<close>

lemma animate_zero:
  assumes "length (arcs st) = maxArcs"
    and "randomIndex r1 (length (shapes st)) \<noteq> randomIndex r0 (length (shapes st))"
  shows "\<exists>st'. animate fails now st
                 (shuffleDraws @ replacementDraws fails st [1, 2] [r0, r1, r2] @ rest) = Done (st', rest)
           \<and> arcUpdated fails (next_id st) (arcs st ! 1) (arcs st' ! 1)
           \<and> arcUpdated fails (next_id st) (arcs st ! 2) (arcs st' ! 2)"
proof -
  from assms(1) have l: "length shuffleDraws = length (arcs st) - 1"
    by (simp add: shuffleDraws_def maxArcs_def)
  from assms(1) have n: "numArcsToUpdate st = 2" by (rule numArcsToUpdate_pool)
  from assms(1) have l7: "length (arcs st) - 1 = 6" "[0 ..< length (arcs st)] = [0 ..< 7]"
    by (simp_all add: maxArcs_def)
  from animate_returns [OF l assms(2), of fails now r2 rest] obtain shuffled st' where
    sh: "shuffle (length (arcs st) - 1) [0 ..< length (arcs st)] shuffleDraws = Done (shuffled, [])" and
    a: "animate fails now st
               (shuffleDraws @ replacementDraws fails st (take (numArcsToUpdate st) shuffled) [r0, r1, r2] @ rest)
             = Done (st', rest)"
    by blast
  from sh shuffle_zero [of "[]"] have s: "shuffled = [1, 2, 3, 4, 5, 6, 0]"
    unfolding l7 by simp
  from a have a': "animate fails now st
        (shuffleDraws @ replacementDraws fails st [1, 2] [r0, r1, r2] @ rest) = Done (st', rest)"
    unfolding n s by simp
  from animate_slots [OF a'] obtain shuffled' rs1 where
    sh': "shuffle (length (arcs st) - 1) [0 ..< length (arcs st)]
            (shuffleDraws @ replacementDraws fails st [1, 2] [r0, r1, r2] @ rest) = Done (shuffled', rs1)" and
    sel: "\<forall>j \<in> set (take (numArcsToUpdate st) shuffled').
                 arcUpdated fails (next_id st) (arcs st ! j) (arcs st' ! j)
                 \<and> (replaced fails (arcs st ! j) \<longrightarrow>
                      set [LineGeometry (line_id (line (arcs st ! j))),
                           LineMaterial (line_id (line (arcs st ! j)))] \<subseteq> set (released st'))"
    by blast
  from sh' shuffle_zero [of "replacementDraws fails st [1, 2] [r0, r1, r2] @ rest"]
  have s': "shuffled' = [1, 2, 3, 4, 5, 6, 0]"
    unfolding l7 by simp
  from sel have "arcUpdated fails (next_id st) (arcs st ! 1) (arcs st' ! 1)"
    and "arcUpdated fails (next_id st) (arcs st ! 2) (arcs st' ! 2)"
    unfolding n s' by simp_all
  with a' show ?thesis by (intro exI conjI)
qed

lemma animate_pair:
  assumes "length (arcs st) = maxArcs" and "length (shapes st) = 91"
    and "active (arcs st ! 1)" and "progress (arcs st ! 1) + speed (arcs st ! 1) < 1"
    and "active (arcs st ! 2)" and "progress (arcs st ! 2) + speed (arcs st ! 2) < 1"
  shows "\<exists>st'. animate neverFails now st (shuffleDraws @ rest) = Done (st', rest)
           \<and> progress (arcs st' ! 1) = progress (arcs st ! 1) + speed (arcs st ! 1)
           \<and> speed (arcs st' ! 1) = speed (arcs st ! 1)
           \<and> progress (arcs st' ! 2) = progress (arcs st ! 2) + speed (arcs st ! 2)
           \<and> speed (arcs st' ! 2) = speed (arcs st ! 2)"
proof -
  have c: "randomIndex (rnd_of (1 / 2)) (length (shapes st)) \<noteq> randomIndex (rnd_of 0) (length (shapes st))"
    unfolding assms(2) by (rule fastDraws_distinct)
  have nf: "\<not> neverFails a" for a by (simp add: neverFails_def)
  from assms(4,6) have rd: "replacementDraws neverFails st [1, 2] rs3 = []" for rs3
    by (simp add: replacementDraws_def replaced_def neverFails_def)
  from animate_zero [OF assms(1) c, of neverFails now "rnd_of 0" rest] obtain st' where
    a: "animate neverFails now st (shuffleDraws @ rest) = Done (st', rest)" and
    u1: "arcUpdated neverFails (next_id st) (arcs st ! 1) (arcs st' ! 1)" and
    u2: "arcUpdated neverFails (next_id st) (arcs st ! 2) (arcs st' ! 2)"
    unfolding rd by auto
  from arcUpdated_advanced(1,2) [OF u1 assms(3,4) nf]
       arcUpdated_advanced(1,2) [OF u2 assms(5,6) nf] a
  show ?thesis by (intro exI conjI)
qed

lemma pool_slot: "poolInvariant st \<Longrightarrow> j < maxArcs \<Longrightarrow> arcInvariant (arcs st ! j)"
  by (simp add: poolInvariant_def)

lemma fire_pair:
  assumes "poolInvariant st" and "hostInvariant st" and "length (shapes st) = 91"
    and "progress (arcs st ! 1) + speed (arcs st ! 1) < 1"
    and "progress (arcs st ! 2) + speed (arcs st ! 2) < 1"
  shows "\<exists>st'. fire neverFails (Frame t) st (shuffleDraws @ rest) = Done (st', rest)
           \<and> poolInvariant st' \<and> hostInvariant st' \<and> length (shapes st') = 91
           \<and> progress (arcs st' ! 1) = progress (arcs st ! 1) + speed (arcs st ! 1)
           \<and> speed (arcs st' ! 1) = speed (arcs st ! 1)
           \<and> progress (arcs st' ! 2) = progress (arcs st ! 2) + speed (arcs st ! 2)
           \<and> speed (arcs st' ! 2) = speed (arcs st ! 2)"
proof -
  from assms(2) obtain f where p: "pending_frames st = [f]"
    by (auto simp: hostInvariant_iff)
  let ?st = "st\<lparr>pending_frames := []\<rparr>"
  from assms(1) have len: "length (arcs ?st) = maxArcs" by (simp add: poolInvariant_def)
  from pool_slot [OF assms(1), of 1] pool_slot [OF assms(1), of 2]
  have act: "active (arcs ?st ! 1)" "active (arcs ?st ! 2)"
    by (simp_all add: maxArcs_def arcInvariant_def)
  from assms(3) have s: "length (shapes ?st) = 91" by simp
  from assms(4,5) have q: "progress (arcs ?st ! 1) + speed (arcs ?st ! 1) < 1"
    "progress (arcs ?st ! 2) + speed (arcs ?st ! 2) < 1" by simp_all
  from animate_pair [OF len s act(1) q(1) act(2) q(2), of t rest] obtain st' where
    a: "animate neverFails t ?st (shuffleDraws @ rest) = Done (st', rest)" and
    r: "progress (arcs st' ! 1) = progress (arcs st ! 1) + speed (arcs st ! 1)"
       "speed (arcs st' ! 1) = speed (arcs st ! 1)"
       "progress (arcs st' ! 2) = progress (arcs st ! 2) + speed (arcs st ! 2)"
       "speed (arcs st' ! 2) = speed (arcs st ! 2)"
    by auto
  from a p have f: "fire neverFails (Frame t) st (shuffleDraws @ rest) = Done (st', rest)"
    by (simp add: fire_def)
  from fire_invariants [OF f assms(1,2)] fire_line(3) [OF f] assms(3)
  have "poolInvariant st'" "hostInvariant st'" "length (shapes st') = 91" by simp_all
  with f r show ?thesis by (intro exI conjI)
qed

lemma fire_pairs:
  "poolInvariant st \<Longrightarrow> hostInvariant st \<Longrightarrow> length (shapes st) = 91 \<Longrightarrow>
   progress (arcs st ! 1) + real n * speed (arcs st ! 1) < 1 \<Longrightarrow>
   progress (arcs st ! 2) + real n * speed (arcs st ! 2) < 1 \<Longrightarrow>
     \<exists>st'. run neverFails (replicate n (Frame t)) st (quietDraws n @ rest) = Done (st', rest)
       \<and> poolInvariant st' \<and> hostInvariant st' \<and> length (shapes st') = 91
       \<and> progress (arcs st' ! 1) = progress (arcs st ! 1) + real n * speed (arcs st ! 1)
       \<and> speed (arcs st' ! 1) = speed (arcs st ! 1)
       \<and> progress (arcs st' ! 2) = progress (arcs st ! 2) + real n * speed (arcs st ! 2)
       \<and> speed (arcs st' ! 2) = speed (arcs st ! 2)"
proof (induction n arbitrary: st)
  case 0
  then show ?case by (simp add: quietDraws_def)
next
  case (Suc n)
  from pool_slot [OF Suc.prems(1), of 1] pool_slot [OF Suc.prems(1), of 2]
  have sp: "0 \<le> speed (arcs st ! 1)" "0 \<le> speed (arcs st ! 2)"
    by (simp_all add: maxArcs_def arcInvariant_def)
  then have "0 \<le> real n * speed (arcs st ! 1)" "0 \<le> real n * speed (arcs st ! 2)"
    by simp_all
  with Suc.prems(4,5) have q: "progress (arcs st ! 1) + speed (arcs st ! 1) < 1"
    "progress (arcs st ! 2) + speed (arcs st ! 2) < 1"
    by (simp_all add: algebra_simps)
  from fire_pair [OF Suc.prems(1-3) q, of t "quietDraws n @ rest"] obtain st1 where
    f: "fire neverFails (Frame t) st (shuffleDraws @ quietDraws n @ rest) = Done (st1, quietDraws n @ rest)" and
    i: "poolInvariant st1" "hostInvariant st1" "length (shapes st1) = 91" and
    r: "progress (arcs st1 ! 1) = progress (arcs st ! 1) + speed (arcs st ! 1)"
       "speed (arcs st1 ! 1) = speed (arcs st ! 1)"
       "progress (arcs st1 ! 2) = progress (arcs st ! 2) + speed (arcs st ! 2)"
       "speed (arcs st1 ! 2) = speed (arcs st ! 2)"
    by auto
  from Suc.prems(4,5) r have q1: "progress (arcs st1 ! 1) + real n * speed (arcs st1 ! 1) < 1"
    "progress (arcs st1 ! 2) + real n * speed (arcs st1 ! 2) < 1"
    by (simp_all add: algebra_simps)
  from Suc.IH [OF i q1] obtain st' where
    run: "run neverFails (replicate n (Frame t)) st1 (quietDraws n @ rest) = Done (st', rest)" and
    i': "poolInvariant st'" "hostInvariant st'" "length (shapes st') = 91" and
    r': "progress (arcs st' ! 1) = progress (arcs st1 ! 1) + real n * speed (arcs st1 ! 1)"
       "speed (arcs st' ! 1) = speed (arcs st1 ! 1)"
       "progress (arcs st' ! 2) = progress (arcs st1 ! 2) + real n * speed (arcs st1 ! 2)"
       "speed (arcs st' ! 2) = speed (arcs st1 ! 2)"
    by auto
  have qd: "quietDraws (Suc n) @ rest = shuffleDraws @ quietDraws n @ rest"
    by (simp add: quietDraws_def)
  from f run have "run neverFails (replicate (Suc n) (Frame t)) st (quietDraws (Suc n) @ rest) = Done (st', rest)"
    unfolding qd by simp
  moreover from r r' have
    "progress (arcs st' ! 1) = progress (arcs st ! 1) + real (Suc n) * speed (arcs st ! 1)"
    "speed (arcs st' ! 1) = speed (arcs st ! 1)"
    "progress (arcs st' ! 2) = progress (arcs st ! 2) + real (Suc n) * speed (arcs st ! 2)"
    "speed (arcs st' ! 2) = speed (arcs st ! 2)"
    by (simp_all add: algebra_simps)
  ultimately show ?case using i' by (intro exI conjI)
qed

lemma mount_fast:
  "\<exists>st0. mountEffect neverFails (Some []) 800 600 0
            (concat (replicate 7 fastDraws) @ shuffleDraws @ rest) = Done (Some st0, rest)
     \<and> progress (arcs st0 ! 1) = 49 / 1000 \<and> speed (arcs st0 ! 1) = 49 / 1000
     \<and> progress (arcs st0 ! 2) = 49 / 1000 \<and> speed (arcs st0 ! 2) = 49 / 1000"
proof -
  let ?s = "sceneSetup [] 800 600"
  have l91: "length (shapes ?s) = 91" by (simp add: sceneSetup_def length_hexShapes)
  have ne: "randomIndex (rnd_of (1 / 2)) (length (shapes ?s)) \<noteq> randomIndex (rnd_of 0) (length (shapes ?s))"
    unfolding l91 by (rule fastDraws_distinct)
  from initArcs_speed [OF ne, of 7 "rnd_of (29 / 30)" "shuffleDraws @ rest"] obtain st1 where
    i: "initArcs maxArcs ?s (concat (replicate 7 fastDraws) @ shuffleDraws @ rest)
          = Done (st1, shuffleDraws @ rest)" and
    sp: "\<forall>a \<in> set (arcs st1). a \<in> set (arcs ?s)
            \<or> (progress a = 0 \<and> speed a = 0.02 + value_of (rnd_of (29 / 30)) * 0.03)"
    unfolding maxArcs_def fastDraws_def by blast
  from initArcs_DoneD [OF i] have len: "length (arcs st1) = 7"
    and fresh: "\<forall>a \<in> set (arcs st1). freshArc a"
    and o: "outsidePool ?s st1"
    by (simp_all add: sceneSetup_def maxArcs_def)
  let ?st = "addLightsAndStars st1"
  have arcs: "arcs ?st = arcs st1" by (simp add: addLightsAndStars_def)
  from sp have all: "\<forall>a \<in> set (arcs st1). progress a = 0 \<and> speed a = 49 / 1000"
    by (simp add: sceneSetup_def)
  from len have m: "arcs st1 ! 1 \<in> set (arcs st1)" "arcs st1 ! 2 \<in> set (arcs st1)" by simp_all
  with all have v: "progress (arcs ?st ! 1) = 0" "speed (arcs ?st ! 1) = 49 / 1000"
    "progress (arcs ?st ! 2) = 0" "speed (arcs ?st ! 2) = 49 / 1000"
    by (simp_all add: arcs)
  from m fresh have act: "active (arcs ?st ! 1)" "active (arcs ?st ! 2)"
    by (simp_all add: arcs freshArc_def)
  from len have l: "length (arcs ?st) = maxArcs" by (simp add: arcs maxArcs_def)
  from o have s: "length (shapes ?st) = 91"
    by (simp add: outsidePool_def addLightsAndStars_def sceneSetup_def length_hexShapes)
  from v have q: "progress (arcs ?st ! 1) + speed (arcs ?st ! 1) < 1"
    "progress (arcs ?st ! 2) + speed (arcs ?st ! 2) < 1" by simp_all
  from animate_pair [OF l s act(1) q(1) act(2) q(2), of 0 rest] obtain st2 where
    a: "animate neverFails 0 ?st (shuffleDraws @ rest) = Done (st2, rest)" and
    r: "progress (arcs st2 ! 1) = progress (arcs ?st ! 1) + speed (arcs ?st ! 1)"
       "speed (arcs st2 ! 1) = speed (arcs ?st ! 1)"
       "progress (arcs st2 ! 2) = progress (arcs ?st ! 2) + speed (arcs ?st ! 2)"
       "speed (arcs st2 ! 2) = speed (arcs ?st ! 2)"
    by auto
  from i a have "mountEffect neverFails (Some []) 800 600 0
            (concat (replicate 7 fastDraws) @ shuffleDraws @ rest)
              = Done (Some (st2\<lparr>resize_listener := True\<rparr>), rest)"
    by (simp add: mountEffect_def)
  moreover from r v have "progress (arcs (st2\<lparr>resize_listener := True\<rparr>) ! 1) = 49 / 1000"
    "speed (arcs (st2\<lparr>resize_listener := True\<rparr>) ! 1) = 49 / 1000"
    "progress (arcs (st2\<lparr>resize_listener := True\<rparr>) ! 2) = 49 / 1000"
    "speed (arcs (st2\<lparr>resize_listener := True\<rparr>) ! 2) = 49 / 1000"
    by simp_all
  ultimately show ?thesis by (intro exI conjI)
qed

text \<open>Mounting with the fast draws and nineteen further frames: slots 1 and 2 have been
  updated twenty times and stand at \<open>0.98\<close>.\<close>

lemma long_run_example:
  "\<exists>st0 st. mountEffect neverFails (Some []) 800 600 0 longDraws
               = Done (Some st0, quietDraws 19 @ crossingDraws)
     \<and> run neverFails (replicate 19 (Frame 16)) st0 (quietDraws 19 @ crossingDraws)
         = Done (st, crossingDraws)
     \<and> progress (arcs st0 ! 1) = 49 / 1000 \<and> speed (arcs st0 ! 1) = 49 / 1000
     \<and> progress (arcs st0 ! 2) = 49 / 1000 \<and> speed (arcs st0 ! 2) = 49 / 1000
     \<and> progress (arcs st ! 1) = 49 / 50 \<and> speed (arcs st ! 1) = 49 / 1000
     \<and> progress (arcs st ! 2) = 49 / 50 \<and> speed (arcs st ! 2) = 49 / 1000"
proof -
  from mount_fast [of "quietDraws 19 @ crossingDraws"] obtain st0 where
    m: "mountEffect neverFails (Some []) 800 600 0 longDraws
               = Done (Some st0, quietDraws 19 @ crossingDraws)" and
    v: "progress (arcs st0 ! 1) = 49 / 1000" "speed (arcs st0 ! 1) = 49 / 1000"
       "progress (arcs st0 ! 2) = 49 / 1000" "speed (arcs st0 ! 2) = 49 / 1000"
    unfolding longDraws_def by auto
  note inv = mount_invariants(1,2) [OF m] mount_line(2) [OF m]
  from v have q: "progress (arcs st0 ! 1) + real 19 * speed (arcs st0 ! 1) < 1"
    "progress (arcs st0 ! 2) + real 19 * speed (arcs st0 ! 2) < 1" by simp_all
  from fire_pairs [OF inv q, of 16 crossingDraws] obtain st where
    r: "run neverFails (replicate 19 (Frame 16)) st0 (quietDraws 19 @ crossingDraws)
         = Done (st, crossingDraws)" and
    w: "progress (arcs st ! 1) = progress (arcs st0 ! 1) + real 19 * speed (arcs st0 ! 1)"
       "speed (arcs st ! 1) = speed (arcs st0 ! 1)"
       "progress (arcs st ! 2) = progress (arcs st0 ! 2) + real 19 * speed (arcs st0 ! 2)"
       "speed (arcs st ! 2) = speed (arcs st0 ! 2)"
    by auto
  from w v have "progress (arcs st ! 1) = 49 / 50" "speed (arcs st ! 1) = 49 / 1000"
    "progress (arcs st ! 2) = 49 / 50" "speed (arcs st ! 2) = 49 / 1000"
    by simp_all
  with m r v show ?thesis by (intro exI conjI)
qed

lemma crossing_draws:
  assumes "active (arcs st ! 1)" and "1 \<le> progress (arcs st ! 1) + speed (arcs st ! 1)"
    and "active (arcs st ! 2)" and "1 \<le> progress (arcs st ! 2) + speed (arcs st ! 2)"
  shows "shuffleDraws @ replacementDraws fails st [1, 2] [rnd_of 0, rnd_of (1 / 2), rnd_of (29 / 30)] @ []
           = crossingDraws"
  using assms by (simp add: replacementDraws_def replaced_def crossingDraws_def fastDraws_def)

lemma shuffled_zero:
  assumes "shuffle (maxArcs - 1) [0 ..< maxArcs] (shuffleDraws @ rest) = Done (shuffled, rs')"
  shows "take 2 shuffled = [1, 2]" and "3 \<notin> set (take 2 shuffled)"
proof -
  from assms shuffle_zero [of rest] have "shuffled = [1, 2, 3, 4, 5, 6, 0]"
    by (simp add: maxArcs_def)
  then show "take 2 shuffled = [1, 2]" and "3 \<notin> set (take 2 shuffled)" by simp_all
qed

section \<open>Draws beyond those consumed\<close>

text \<open>A call that returns leaves the draws it did not consume as they are: more draws behind
  them change nothing else.\<close>

lemma pickEnd_append:
  "pickEnd n s rs = Done (e, rs') \<Longrightarrow> pickEnd n s (rs @ rest) = Done (e, rs' @ rest)"
  by (induction rs) (auto simp: Let_def split: if_splits)

lemma createArc_append:
  assumes "createArc st rs = Done (a, st', rs')"
  shows "createArc st (rs @ rest) = Done (a, st', rs' @ rest)"
proof -
  let ?n = "length (shapes st)"
  from assms obtain r0 rs1 where rs: "rs = r0 # rs1"
    by (cases rs) (simp_all add: createArc_def nextDraw_def)
  let ?s = "randomIndex r0 ?n"
  from assms rs obtain e rs2 where pe: "pickEnd ?n ?s rs1 = Done (e, rs2)"
    by (cases "pickEnd ?n ?s rs1") (auto simp: createArc_def nextDraw_def Let_def)
  from createArc_DoneD [OF assms] have pos: "0 < ?n" by auto
  from pickEnd_Done [OF pe] pos have s: "?s < ?n" and e: "e < ?n"
    by (simp_all add: randomIndex_less)
  from assms rs pe s e obtain r1 where rs2: "rs2 = r1 # rs'"
    by (cases rs2) (simp_all add: createArc_def nextDraw_def Let_def positionAt_def)
  from assms rs pe s e rs2 pickEnd_append [OF pe, of rest] show ?thesis
    by (simp add: createArc_def nextDraw_def Let_def positionAt_def)
qed

lemma replaceArc_append:
  assumes "replaceArc index a st rs = Done (st', rs')"
  shows "replaceArc index a st (rs @ rest) = Done (st', rs' @ rest)"
proof -
  from assms obtain a' st1 where c: "createArc (disposeArc a st) rs = Done (a', st1, rs')"
    and st': "st' = st1\<lparr>arcs := (arcs st1)[index := a']\<rparr>"
    by (auto simp: replaceArc_def obind_eq_Done)
  from createArc_append [OF c, of rest] st' show ?thesis
    by (simp add: replaceArc_def)
qed

lemma updateArc_append:
  assumes "updateArc fails index st rs = Done (st', rs')"
  shows "updateArc fails index st (rs @ rest) = Done (st', rs' @ rest)"
  using assms
proof (cases rule: updateArc_DoneE)
  case inactive
  then show ?thesis by (simp add: updateArc_def)
next
  case (advanced a')
  then show ?thesis by (simp add: updateArc_def Let_def)
next
  case completed
  from replaceArc_append [OF completed(4), of rest] completed(1-3) show ?thesis
    by (simp add: updateArc_def Let_def)
next
  case failed
  from replaceArc_append [OF failed(5), of rest]
    updateArc_failed [where fails = fails, OF failed(1-4), of "rs @ rest"]
  show ?thesis by simp
qed

lemma updateArcs_append:
  "updateArcs fails is st rs = Done (st', rs') \<Longrightarrow>
     updateArcs fails is st (rs @ rest) = Done (st', rs' @ rest)"
proof (induction "is" arbitrary: st rs)
  case Nil
  then show ?case by simp
next
  case (Cons i "is")
  from Cons.prems obtain st1 rs1 where
    u: "updateArc fails i st rs = Done (st1, rs1)" and
    r: "updateArcs fails is st1 rs1 = Done (st', rs')"
    by (auto simp: obind_eq_Done)
  from updateArc_append [OF u, of rest] Cons.IH [OF r] show ?case by simp
qed

lemma animate_append:
  assumes "animate fails now st rs = Done (st', rs')"
  shows "animate fails now st (rs @ rest) = Done (st', rs' @ rest)"
proof -
  from assms obtain shuffled rs1 st4 where
    sh: "shuffle (length (arcs st) - 1) [0 ..< length (arcs st)] rs = Done (shuffled, rs1)" and
    up: "updateArcs fails (take (numArcsToUpdate st) shuffled) (beforeArcs now st) rs1 = Done (st4, rs')" and
    st': "st' = render (updateShimmers st4)"
    unfolding animate_eq by (auto simp: obind_eq_Done)
  from shuffle_append [OF sh, of rest] updateArcs_append [OF up, of rest] st' show ?thesis
    unfolding animate_eq by simp
qed

lemma fire_append:
  assumes "fire fails ev st rs = Done (st', rs')"
  shows "fire fails ev st (rs @ rest) = Done (st', rs' @ rest)"
proof (cases ev)
  case (Frame t)
  show ?thesis
  proof (cases "pending_frames st")
    case Nil
    with assms Frame show ?thesis by (simp add: fire_def)
  next
    case (Cons f fs)
    with assms Frame have "animate fails t (st\<lparr>pending_frames := fs\<rparr>) rs = Done (st', rs')"
      by (simp add: fire_def)
    from animate_append [OF this, of rest] Frame Cons show ?thesis by (simp add: fire_def)
  qed
next
  case (Resize w h)
  with assms show ?thesis by (auto simp: fire_def)
next
  case (FontLoaded tw)
  with assms show ?thesis by (auto simp: fire_def)
qed

lemma run_append:
  "run fails evs st rs = Done (st', rs') \<Longrightarrow> run fails evs st (rs @ rest) = Done (st', rs' @ rest)"
proof (induction evs arbitrary: st rs)
  case Nil
  then show ?case by simp
next
  case (Cons ev evs)
  from Cons.prems obtain st1 rs1 where
    f: "fire fails ev st rs = Done (st1, rs1)" and
    r: "run fails evs st1 rs1 = Done (st', rs')"
    by (auto simp: obind_eq_Done)
  from fire_append [OF f, of rest] Cons.IH [OF r] show ?case by simp
qed

lemma initArcs_append:
  "initArcs n st rs = Done (st', rs') \<Longrightarrow> initArcs n st (rs @ rest) = Done (st', rs' @ rest)"
proof (induction n arbitrary: st rs)
  case 0
  then show ?case by simp
next
  case (Suc n)
  from Suc.prems obtain a st1 rs1 where
    c: "createArc st rs = Done (a, st1, rs1)" and
    r: "initArcs n (st1\<lparr>arcs := arcs st1 @ [a]\<rparr>) rs1 = Done (st', rs')"
    by (auto simp: obind_eq_Done)
  from createArc_append [OF c, of rest] Suc.IH [OF r] show ?case by simp
qed

lemma mountEffect_append:
  assumes "mountEffect fails cur w h now rs = Done (r, rs')"
  shows "mountEffect fails cur w h now (rs @ rest) = Done (r, rs' @ rest)"
proof (cases cur)
  case None
  with assms show ?thesis by (simp add: mountEffect_def)
next
  case (Some cs)
  with assms obtain st1 rs1 st2 where
    i: "initArcs maxArcs (sceneSetup cs w h) rs = Done (st1, rs1)" and
    a: "animate fails now (addLightsAndStars st1) rs1 = Done (st2, rs')" and
    r: "r = Some (st2\<lparr>resize_listener := True\<rparr>)"
    by (auto simp: mountEffect_def obind_eq_Done)
  from initArcs_append [OF i, of rest] animate_append [OF a, of rest] r Some show ?thesis
    by (simp add: mountEffect_def)
qed

section \<open>Every sequence of events has draws on which it returns\<close>

text \<open>The draws \<open>0\<close> and \<open>1/2\<close> pick shapes 0 and 45 of the 91, so that \<open>createArc\<close> leaves
  its loop after one round; with them every frame, whatever it replaces, returns.\<close>

lemma fire_total:
  assumes "poolInvariant st" and "hostInvariant st" and "length (shapes st) = 91"
  shows "\<exists>rs st'. fire fails ev st rs = Done (st', [])"
proof (cases ev)
  case (Frame t)
  have l: "length shuffleDraws = maxArcs - 1" by (simp add: shuffleDraws_def maxArcs_def)
  have ne: "randomIndex (rnd_of (1 / 2)) (length (shapes st)) \<noteq> randomIndex (rnd_of 0) (length (shapes st))"
    unfolding assms(3) by (rule fastDraws_distinct)
  from fire_returns [OF assms(1,2) l ne, of fails t "rnd_of 0" "[]"] Frame show ?thesis
    by blast
next
  case (Resize w h)
  then show ?thesis by (simp add: fire_def)
next
  case (FontLoaded tw)
  then show ?thesis by (simp add: fire_def)
qed

lemma run_total:
  "poolInvariant st \<Longrightarrow> hostInvariant st \<Longrightarrow> length (shapes st) = 91 \<Longrightarrow>
     \<exists>rs st'. run fails evs st rs = Done (st', [])"
proof (induction evs arbitrary: st)
  case Nil
  then show ?case by simp
next
  case (Cons ev evs)
  from fire_total [OF Cons.prems, of fails ev] obtain rs1 st1 where
    f: "fire fails ev st rs1 = Done (st1, [])" by blast
  note inv = fire_invariants [OF f Cons.prems(1,2)]
  from fire_line(3) [OF f] Cons.prems(3) have s: "length (shapes st1) = 91" by simp
  from Cons.IH [OF inv s] obtain rs2 st' where
    r: "run fails evs st1 rs2 = Done (st', [])" by blast
  from fire_append [OF f, of rs2] r have "run fails (ev # evs) st (rs1 @ rs2) = Done (st', [])"
    by simp
  then show ?case by blast
qed

lemma mount_total: "\<exists>rs st0. mountEffect fails (Some cs) w h now rs = Done (Some st0, [])"
proof -
  let ?s = "sceneSetup cs w h"
  have l91: "length (shapes ?s) = 91" by (simp add: sceneSetup_def length_hexShapes)
  have ne: "randomIndex (rnd_of (1 / 2)) (length (shapes ?s)) \<noteq> randomIndex (rnd_of 0) (length (shapes ?s))"
    unfolding l91 by (rule fastDraws_distinct)
  from initArcs_returns [OF ne, of maxArcs "rnd_of 0" "[]"] obtain st1 where
    i: "initArcs maxArcs ?s (concat (replicate maxArcs [rnd_of 0, rnd_of (1 / 2), rnd_of 0]) @ [])
          = Done (st1, [])" by blast
  let ?st = "addLightsAndStars st1"
  from initArcs_DoneD [OF i] have len: "length (arcs ?st) = maxArcs"
    and s: "length (shapes ?st) = 91"
    by (simp_all add: outsidePool_def addLightsAndStars_def sceneSetup_def length_hexShapes)
  from len have l: "length shuffleDraws = length (arcs ?st) - 1"
    by (simp add: shuffleDraws_def maxArcs_def)
  have ne': "randomIndex (rnd_of (1 / 2)) (length (shapes ?st)) \<noteq> randomIndex (rnd_of 0) (length (shapes ?st))"
    unfolding s by (rule fastDraws_distinct)
  from animate_returns [OF l ne', of fails now "rnd_of 0" "[]"] obtain rs2 st2 where
    a: "animate fails now ?st rs2 = Done (st2, [])" by blast
  from initArcs_append [OF i, of rs2] a
  have "mountEffect fails (Some cs) w h now
          ((concat (replicate maxArcs [rnd_of 0, rnd_of (1 / 2), rnd_of 0]) @ []) @ rs2)
        = Done (Some (st2\<lparr>resize_listener := True\<rparr>), [])"
    by (simp add: mountEffect_def)
  then show ?thesis by blast
qed

lemma mount_run_total:
  "\<exists>rs st0 rs0 st. mountEffect fails (Some cs) w h now rs = Done (Some st0, rs0)
      \<and> run fails evs st0 rs0 = Done (st, [])"
proof -
  from mount_total obtain rs1 st0 where
    m: "mountEffect fails (Some cs) w h now rs1 = Done (Some st0, [])" by blast
  note inv = mount_invariants(1,2) [OF m] mount_line(2) [OF m]
  from run_total [OF inv, of fails evs] obtain rs2 st where
    r: "run fails evs st0 rs2 = Done (st, [])" by blast
  from mountEffect_append [OF m, of rs2] r show ?thesis
    by (intro exI [of _ "rs1 @ rs2"] exI [of _ st0] exI [of _ rs2] exI [of _ st]) simp
qed

section \<open>The arc pool across frames\<close>

text \<open>
  C2. After mounting and after any sequence of events, frames among them, that return, the
  pool holds exactly \<open>maxArcs = 7\<close> arcs, and so it does after one more frame. That frame
  shuffles the seven slots and updates the first two of the shuffled order. In an updated
  slot whose arc reaches progress 1 with this update, or whose recomputation fails, there is
  afterwards an arc as \<open>createArc\<close> returns it (\<open>freshArc\<close>), with a line object other than
  the old one, and the geometry and material of the old line have been released; every slot
  that is not updated holds the arc it held. Such a frame returns: for any six draws for the
  shuffle followed by three draws \<open>r0\<close>, \<open>r1\<close>, \<open>r2\<close> for each arc to be replaced, where
  \<open>r0\<close> and \<open>r1\<close> pick different shapes, the frame consumes exactly these draws. And for
  every sequence of events there are draws on which mounting and all the events return, so
  that the statement covers runs of every length. Progress and speed are exact reals.
\<close>

theorem arc_pool_size_invariant:
  assumes "mountEffect fails (Some cs) w h now rs = Done (Some st0, rs0)"
    and "run fails evs st0 rs0 = Done (st, rs1)"
  shows "length (arcs st) = maxArcs \<and> maxArcs = 7
     \<and> (\<forall>t rs2 st' rs3. fire fails (Frame t) st rs2 = Done (st', rs3) \<longrightarrow>
          length (arcs st') = maxArcs
          \<and> (\<exists>shuffled rs'.
                shuffle (maxArcs - 1) [0 ..< maxArcs] rs2 = Done (shuffled, rs')
                \<and> (\<forall>j \<in> set (take 2 shuffled).
                      1 \<le> progress (arcs st ! j) + speed (arcs st ! j)
                        \<or> fails ((arcs st ! j)\<lparr>progress := progress (arcs st ! j) + speed (arcs st ! j)\<rparr>)
                      \<longrightarrow> freshArc (arcs st' ! j)
                          \<and> line_id (line (arcs st' ! j)) \<noteq> line_id (line (arcs st ! j))
                          \<and> set [LineGeometry (line_id (line (arcs st ! j))),
                                 LineMaterial (line_id (line (arcs st ! j)))] \<subseteq> set (released st'))
                \<and> (\<forall>j. j \<notin> set (take 2 shuffled) \<longrightarrow> arcs st' ! j = arcs st ! j)))
     \<and> (\<forall>t sh r0 r1 r2 rest.
          length sh = maxArcs - 1
          \<and> randomIndex r1 (length (shapes st)) \<noteq> randomIndex r0 (length (shapes st)) \<longrightarrow>
          (\<exists>shuffled st'.
              shuffle (maxArcs - 1) [0 ..< maxArcs] sh = Done (shuffled, [])
              \<and> fire fails (Frame t) st
                  (sh @ replacementDraws fails st (take 2 shuffled) [r0, r1, r2] @ rest)
                = Done (st', rest)))
     \<and> (\<forall>evs'. \<exists>rs' st0' rs0' st'.
          mountEffect fails (Some cs) w h now rs' = Done (Some st0', rs0')
          \<and> run fails evs' st0' rs0' = Done (st', []))"
proof -
  note inv = reachable [OF assms]
  from inv(1) have len: "length (arcs st) = maxArcs \<and> maxArcs = 7"
    by (simp add: poolInvariant_def maxArcs_def)
  have frame: "length (arcs st') = maxArcs
          \<and> (\<exists>shuffled rs'.
                shuffle (maxArcs - 1) [0 ..< maxArcs] rs2 = Done (shuffled, rs')
                \<and> (\<forall>j \<in> set (take 2 shuffled).
                      1 \<le> progress (arcs st ! j) + speed (arcs st ! j)
                        \<or> fails ((arcs st ! j)\<lparr>progress := progress (arcs st ! j) + speed (arcs st ! j)\<rparr>)
                      \<longrightarrow> freshArc (arcs st' ! j)
                          \<and> line_id (line (arcs st' ! j)) \<noteq> line_id (line (arcs st ! j))
                          \<and> set [LineGeometry (line_id (line (arcs st ! j))),
                                 LineMaterial (line_id (line (arcs st ! j)))] \<subseteq> set (released st'))
                \<and> (\<forall>j. j \<notin> set (take 2 shuffled) \<longrightarrow> arcs st' ! j = arcs st ! j))"
    if f: "fire fails (Frame t) st rs2 = Done (st', rs3)" for t rs2 st' rs3
  proof -
    from fire_invariants(1) [OF f inv(1,2)] have l': "length (arcs st') = maxArcs"
      by (simp add: poolInvariant_def)
    from fire_frame_slots [OF f inv(1,2)] obtain shuffled rs' where
      sh: "shuffle (maxArcs - 1) [0 ..< maxArcs] rs2 = Done (shuffled, rs')" and
      sel: "\<forall>j \<in> set (take 2 shuffled).
                 j < maxArcs
                 \<and> arcUpdated fails (next_id st) (arcs st ! j) (arcs st' ! j)
                 \<and> (replaced fails (arcs st ! j) \<longrightarrow>
                      set [LineGeometry (line_id (line (arcs st ! j))),
                           LineMaterial (line_id (line (arcs st ! j)))] \<subseteq> set (released st'))" and
      oth: "\<forall>j. j \<notin> set (take 2 shuffled) \<longrightarrow> arcs st' ! j = arcs st ! j"
      by blast
    have "\<forall>j \<in> set (take 2 shuffled).
                      1 \<le> progress (arcs st ! j) + speed (arcs st ! j)
                        \<or> fails ((arcs st ! j)\<lparr>progress := progress (arcs st ! j) + speed (arcs st ! j)\<rparr>)
                      \<longrightarrow> freshArc (arcs st' ! j)
                          \<and> line_id (line (arcs st' ! j)) \<noteq> line_id (line (arcs st ! j))
                          \<and> set [LineGeometry (line_id (line (arcs st ! j))),
                                 LineMaterial (line_id (line (arcs st ! j)))] \<subseteq> set (released st')"
    proof (intro ballI impI)
      fix j
      assume j: "j \<in> set (take 2 shuffled)"
        and c: "1 \<le> progress (arcs st ! j) + speed (arcs st ! j)
                  \<or> fails ((arcs st ! j)\<lparr>progress := progress (arcs st ! j) + speed (arcs st ! j)\<rparr>)"
      from sel j have jl: "j < maxArcs"
        and u: "arcUpdated fails (next_id st) (arcs st ! j) (arcs st' ! j)"
        and rl: "replaced fails (arcs st ! j) \<longrightarrow>
                      set [LineGeometry (line_id (line (arcs st ! j))),
                           LineMaterial (line_id (line (arcs st ! j)))] \<subseteq> set (released st')"
        by simp_all
      from jl inv(1) have mem: "arcs st ! j \<in> set (arcs st)" by (simp add: poolInvariant_def)
      with inv(1) have act: "active (arcs st ! j)"
        by (simp add: poolInvariant_def arcInvariant_def)
      from mem inv(3) have old: "line_id (line (arcs st ! j)) < next_id st"
        by (simp add: lineInvariant_def)
      from act c have "replaced fails (arcs st ! j)" by (simp add: replaced_def)
      with rl arcUpdated_replaced [OF u act c] old
      show "freshArc (arcs st' ! j)
              \<and> line_id (line (arcs st' ! j)) \<noteq> line_id (line (arcs st ! j))
              \<and> set [LineGeometry (line_id (line (arcs st ! j))),
                     LineMaterial (line_id (line (arcs st ! j)))] \<subseteq> set (released st')"
        by simp
    qed
    with l' sh oth show ?thesis by (intro conjI exI [of _ shuffled] exI [of _ rs'])
  qed
  have returns: "\<exists>shuffled st'.
              shuffle (maxArcs - 1) [0 ..< maxArcs] sh = Done (shuffled, [])
              \<and> fire fails (Frame t) st
                  (sh @ replacementDraws fails st (take 2 shuffled) [r0, r1, r2] @ rest)
                = Done (st', rest)"
    if "length sh = maxArcs - 1
          \<and> randomIndex r1 (length (shapes st)) \<noteq> randomIndex r0 (length (shapes st))"
    for t sh r0 r1 r2 rest
    using that fire_returns [OF inv(1,2), of sh r1 r0 fails t r2 rest] by simp
  from len have l: "length (arcs st) = maxArcs" "maxArcs = 7" by simp_all
  show ?thesis
    apply (intro conjI)
    subgoal by (rule l)
    subgoal by (rule l)
    subgoal by (intro allI impI) (rule frame)
    subgoal by (intro allI impI) (rule returns)
    subgoal by (intro allI) (rule mount_run_total)
    done
qed

text \<open>The long run: after mounting and nineteen more frames slot 1 stands at \<open>0.98\<close> with
  speed \<open>0.049\<close>; the next frame returns, replaces its arc and leaves slot 3 alone.\<close>

theorem arc_pool_size_invariant_witness:
  "\<exists>st0 st st'.
       mountEffect neverFails (Some []) 800 600 0 longDraws
         = Done (Some st0, quietDraws 19 @ crossingDraws)
     \<and> run neverFails (replicate 19 (Frame 16)) st0 (quietDraws 19 @ crossingDraws)
         = Done (st, crossingDraws)
     \<and> length (arcs st) = maxArcs \<and> maxArcs = 7
     \<and> progress (arcs st ! 1) = 49 / 50 \<and> speed (arcs st ! 1) = 49 / 1000
     \<and> length shuffleDraws = maxArcs - 1
     \<and> randomIndex (rnd_of (1 / 2)) (length (shapes st)) \<noteq> randomIndex (rnd_of 0) (length (shapes st))
     \<and> fire neverFails (Frame 16) st crossingDraws = Done (st', [])
     \<and> length (arcs st') = maxArcs
     \<and> freshArc (arcs st' ! 1)
     \<and> line_id (line (arcs st' ! 1)) \<noteq> line_id (line (arcs st ! 1))
     \<and> set [LineGeometry (line_id (line (arcs st ! 1))),
            LineMaterial (line_id (line (arcs st ! 1)))] \<subseteq> set (released st')
     \<and> arcs st' ! 3 = arcs st ! 3"
proof -
  from long_run_example obtain st0 st where
    m: "mountEffect neverFails (Some []) 800 600 0 longDraws
          = Done (Some st0, quietDraws 19 @ crossingDraws)" and
    r: "run neverFails (replicate 19 (Frame 16)) st0 (quietDraws 19 @ crossingDraws)
          = Done (st, crossingDraws)" and
    v: "progress (arcs st ! 1) = 49 / 50" "speed (arcs st ! 1) = 49 / 1000"
       "progress (arcs st ! 2) = 49 / 50" "speed (arcs st ! 2) = 49 / 1000"
    by blast
  note T = arc_pool_size_invariant [OF m r]
  note inv = reachable [OF m r]
  from T have len: "length (arcs st) = maxArcs" "maxArcs = 7" by simp_all
  have l6: "length shuffleDraws = maxArcs - 1" by (simp add: shuffleDraws_def maxArcs_def)
  have ne: "randomIndex (rnd_of (1 / 2)) (length (shapes st)) \<noteq> randomIndex (rnd_of 0) (length (shapes st))"
    unfolding inv(4) by (rule fastDraws_distinct)
  from pool_slot [OF inv(1), of 1] pool_slot [OF inv(1), of 2]
  have act: "active (arcs st ! 1)" "active (arcs st ! 2)"
    by (simp_all add: maxArcs_def arcInvariant_def)
  from v have c: "1 \<le> progress (arcs st ! 1) + speed (arcs st ! 1)"
    "1 \<le> progress (arcs st ! 2) + speed (arcs st ! 2)" by simp_all
  from T [THEN conjunct2, THEN conjunct2, THEN conjunct2, THEN conjunct1, rule_format,
          of shuffleDraws "rnd_of (1 / 2)" "rnd_of 0" 16 "rnd_of (29 / 30)" "[]"] l6 ne
  obtain shuffled st' where
    s0: "shuffle (maxArcs - 1) [0 ..< maxArcs] shuffleDraws = Done (shuffled, [])" and
    f0: "fire neverFails (Frame 16) st
           (shuffleDraws @ replacementDraws neverFails st (take 2 shuffled)
              [rnd_of 0, rnd_of (1 / 2), rnd_of (29 / 30)] @ []) = Done (st', [])"
    by blast
  from s0 have "shuffle (maxArcs - 1) [0 ..< maxArcs] (shuffleDraws @ []) = Done (shuffled, [])"
    by simp
  from shuffled_zero(1) [OF this] f0 have f: "fire neverFails (Frame 16) st crossingDraws = Done (st', [])"
    by (simp only: crossing_draws [OF act(1) c(1) act(2) c(2)])
  from T [THEN conjunct2, THEN conjunct2, THEN conjunct1, rule_format, OF f]
  obtain shuffled' rs' where
    l': "length (arcs st') = maxArcs" and
    s1: "shuffle (maxArcs - 1) [0 ..< maxArcs] crossingDraws = Done (shuffled', rs')" and
    sel: "\<forall>j \<in> set (take 2 shuffled').
             1 \<le> progress (arcs st ! j) + speed (arcs st ! j)
               \<or> neverFails ((arcs st ! j)\<lparr>progress := progress (arcs st ! j) + speed (arcs st ! j)\<rparr>)
             \<longrightarrow> freshArc (arcs st' ! j)
                 \<and> line_id (line (arcs st' ! j)) \<noteq> line_id (line (arcs st ! j))
                 \<and> set [LineGeometry (line_id (line (arcs st ! j))),
                        LineMaterial (line_id (line (arcs st ! j)))] \<subseteq> set (released st')" and
    oth: "\<forall>j. j \<notin> set (take 2 shuffled') \<longrightarrow> arcs st' ! j = arcs st ! j"
    by blast
  from s1 have s1': "shuffle (maxArcs - 1) [0 ..< maxArcs] (shuffleDraws @ fastDraws @ fastDraws)
      = Done (shuffled', rs')" by (simp add: crossingDraws_def)
  note z = shuffled_zero [OF s1']
  from z(1) have "1 \<in> set (take 2 shuffled')" by simp
  with sel c(1) have n: "freshArc (arcs st' ! 1)"
    "line_id (line (arcs st' ! 1)) \<noteq> line_id (line (arcs st ! 1))"
    "set [LineGeometry (line_id (line (arcs st ! 1))),
          LineMaterial (line_id (line (arcs st ! 1)))] \<subseteq> set (released st')"
    by simp_all
  from oth z(2) have o: "arcs st' ! 3 = arcs st ! 3" by simp
  from m r len v(1,2) l6 ne f l' n o show ?thesis
    by (intro exI [of _ st0] exI [of _ st] exI [of _ st'] conjI)
qed



end
